theory Spec2Isabelle
  imports Complex_Main "HOL-Library.AList"
begin

section \<open>Common data model\<close>

text \<open>
  The six root-finding methods of \<^verbatim>\<open>rootFinder/methods\<close> are embedded as HOL functions.
  Python floats are idealised as real numbers: rounding error, overflow and signed zeros are
  not modelled, since the claims below are about which branch a run takes and what it
  appends. The objective \<open>f\<close> is a pure function on the reals, except for incremental
  search, whose code inspects how an evaluation ends. Everything else the code can raise is
  a value of \<open>py_error\<close>; a division of Python floats is \<open>py_div\<close>, which raises on a zero
  divisor as Python does. Iteration budgets and counters are Python ints, here \<open>int\<close>.
\<close>

datatype py_error = ZeroDivisionError | ValueError | IndexError

text \<open>
  A table cell holds what the Python dictionaries hold: an int, a float, a string or
  \<^verbatim>\<open>None\<close>. The text of an f-string is not computed: \<open>FmtC fmt args\<close> stands for
  the format \<open>fmt\<close> applied to the floats \<open>args\<close>.
\<close>

datatype cell = IntC int | NumC real | StrC string | NoneC | FmtC string "real list"

text \<open>A row is an insertion-ordered dictionary from column names to cells.\<close>

type_synonym row = "(string \<times> cell) list"

definition py_div :: "real \<Rightarrow> real \<Rightarrow> py_error + real" where
  "py_div x y = (if y = 0 then Inl ZeroDivisionError else Inr (x / y))"

definition round_half_even :: "real \<Rightarrow> int" where
  "round_half_even x =
     (let fl = \<lfloor>x\<rfloor>; d = x - of_int fl
      in if d < 1 / 2 then fl else if 1 / 2 < d then fl + 1
         else if even fl then fl else fl + 1)"

text \<open>\<^verbatim>\<open>round(x, n)\<close>: to \<open>n\<close> decimal digits, ties to even.\<close>

definition py_round :: "nat \<Rightarrow> real \<Rightarrow> real" where
  "py_round n x = of_int (round_half_even (x * 10 ^ n)) / 10 ^ n"

text \<open>The literal \<^verbatim>\<open>1e-10\<close>.\<close>

definition eps10 :: real where
  "eps10 = 1 / 10 ^ 10"

text \<open>
  \<^verbatim>\<open>ea = abs((x_new - x)/x_new) if x_new != 0 else 0\<close>, shared by Newton-Raphson and the
  secant method.
\<close>

definition rel_err :: "real \<Rightarrow> real \<Rightarrow> py_error + real" where
  "rel_err x_new x =
     (if x_new \<noteq> 0
      then (case py_div (x_new - x) x_new of Inl e \<Rightarrow> Inl e | Inr q \<Rightarrow> Inr \<bar>q\<bar>)
      else Inr 0)"

text \<open>\<^verbatim>\<open>table_data[-1]["Status"] = "Max iterations reached"\<close>; an empty table raises.\<close>

definition set_status :: "row list \<Rightarrow> py_error + row list" where
  "set_status table_data =
     (if table_data = [] then Inl IndexError
      else Inr (butlast table_data @
                [AList.update ''Status'' (StrC ''Max iterations reached'') (last table_data)]))"

section \<open>Bisection\<close>

text \<open>The column \<^verbatim>\<open>f(xl)\<close>, a middle dot (U+00B7, two bytes in UTF-8), \<^verbatim>\<open>f(xu)\<close>.\<close>

definition sign_column :: string where
  "sign_column = ''f(xl)'' @ [CHR 0xC2, CHR 0xB7] @ ''f(xu)''"

definition bisection_row ::
  "int \<Rightarrow> real \<Rightarrow> real \<Rightarrow> real \<Rightarrow> real \<Rightarrow> real \<Rightarrow> real \<Rightarrow> real \<Rightarrow> string \<Rightarrow> row" where
  "bisection_row iteration a c b fa fc fb error remark =
     [(''Iteration'', IntC iteration),
      (''xl'', NumC (py_round 7 a)),
      (''xr'', NumC (py_round 7 c)),
      (''xu'', NumC (py_round 7 b)),
      (''f(xl)'', NumC (py_round 7 fa)),
      (''f(xr)'', NumC (py_round 7 fc)),
      (''f(xu)'', NumC (py_round 7 fb)),
      (''|ea|%'', NumC (py_round 7 error)),
      (sign_column, StrC (if fa * fb < 0 then ''< 0'' else ''> 0'')),
      (''Remark'', StrC remark)]"

text \<open>
  \<^verbatim>\<open>error = abs((c - x_old) / c) * 100\<close> when \<^verbatim>\<open>x_old\<close> is set, else 0. The division
  is unguarded in the source, so a midpoint of exactly 0 raises from the second iteration on.
\<close>

definition bisection_error :: "real option \<Rightarrow> real \<Rightarrow> py_error + real" where
  "bisection_error x_old c =
     (case x_old of
        None \<Rightarrow> Inr 0
      | Some xo \<Rightarrow> (case py_div (c - xo) c of Inl e \<Rightarrow> Inl e | Inr q \<Rightarrow> Inr (\<bar>q\<bar> * 100)))"

text \<open>The \<^verbatim>\<open>while iteration <= max_iter\<close> loop; the state is what the loop rebinds.\<close>

function bisection_loop ::
  "(real \<Rightarrow> real) \<Rightarrow> real \<Rightarrow> int \<Rightarrow> real \<Rightarrow> real \<Rightarrow> int \<Rightarrow> real option \<Rightarrow>
   real list \<Rightarrow> row list \<Rightarrow> py_error + (real list \<times> row list)" where
  "bisection_loop f tol max_iter a b iteration x_old roots table_data =
     (if iteration \<le> max_iter then
        (let c = (a + b) / 2; fc = f c; fa = f a; fb = f b in
         case bisection_error x_old c of
           Inl e \<Rightarrow> Inl e
         | Inr error \<Rightarrow>
             (let remark = (if fa * fc < 0 then ''1st subinterval'' else ''2nd subinterval'');
                  b' = (if fa * fc < 0 then c else b);
                  a' = (if fa * fc < 0 then a else c);
                  table_data' = table_data @
                    [bisection_row iteration a' c b' fa fc fb error remark]
              in if error < tol \<and> iteration > 1 then Inr (roots @ [py_round 7 c], table_data')
                 else if \<bar>fc\<bar> < eps10 then Inr (roots @ [py_round 7 c], table_data')
                 else bisection_loop f tol max_iter a' b' (iteration + 1) (Some c)
                        roots table_data'))
      else Inr (roots, table_data))"
  by pat_completeness auto
termination
  by (relation "measure (\<lambda>(f, tol, max_iter, a, b, iteration, r). nat (max_iter + 1 - iteration))")
     auto

declare bisection_loop.simps [simp del]

definition bisection_method ::
  "(real \<Rightarrow> real) \<Rightarrow> real \<Rightarrow> real \<Rightarrow> real \<Rightarrow> int \<Rightarrow> py_error + (real list \<times> row list)" where
  "bisection_method f a b tol max_iter =
     (if f a * f b > 0 then Inr ([], [])
      else bisection_loop f tol max_iter a b 1 None [] [])"

section \<open>Regula falsi\<close>

definition rf_row :: "real \<Rightarrow> real \<Rightarrow> int \<Rightarrow> real \<Rightarrow> real \<Rightarrow> real \<Rightarrow> real \<Rightarrow> row" where
  "rf_row x1 x2 iteration left right c fc =
     [(''Subinterval'', FmtC ''[{x1:.2f}, {x2:.2f}]'' [x1, x2]),
      (''Iteration'', IntC (iteration + 1)),
      (''a'', NumC (py_round 6 left)),
      (''b'', NumC (py_round 6 right)),
      (''c'', NumC (py_round 6 c)),
      (''f(c)'', FmtC ''{fc:.4e}'' [fc])]"

text \<open>The inner scan of the roots found so far: no root within \<open>tol\<close> of \<open>c\<close>.\<close>

definition is_unique :: "real \<Rightarrow> real \<Rightarrow> real list \<Rightarrow> bool" where
  "is_unique tol c roots = list_all (\<lambda>existing_root. \<not> \<bar>c - existing_root\<bar> < tol) roots"

text \<open>The \<^verbatim>\<open>for iteration in range(max_iter)\<close> loop on one subinterval.\<close>

function rf_inner ::
  "(real \<Rightarrow> real) \<Rightarrow> real \<Rightarrow> int \<Rightarrow> real \<Rightarrow> real \<Rightarrow> int \<Rightarrow> real \<Rightarrow> real \<Rightarrow> real \<Rightarrow> real \<Rightarrow>
   real list \<Rightarrow> row list \<Rightarrow> py_error + (real list \<times> row list)" where
  "rf_inner f tol max_iter x1 x2 iteration left right fl fr roots table_data =
     (if iteration < max_iter then
        (case py_div (left * fr - right * fl) (fr - fl) of
           Inl e \<Rightarrow> Inl e
         | Inr c \<Rightarrow>
             (let fc = f c;
                  table_data' = table_data @ [rf_row x1 x2 iteration left right c fc]
              in if \<bar>fc\<bar> < tol
                 then Inr (if is_unique tol c roots then roots @ [py_round 6 c] else roots,
                           table_data')
                 else
                   (let right' = (if fl * fc < 0 then c else right);
                        fr' = (if fl * fc < 0 then fc else fr);
                        left' = (if fl * fc < 0 then left else c);
                        fl' = (if fl * fc < 0 then fl else fc)
                    in if \<bar>right' - left'\<bar> < tol then Inr (roots, table_data')
                       else rf_inner f tol max_iter x1 x2 (iteration + 1) left' right' fl' fr'
                              roots table_data')))
      else Inr (roots, table_data))"
  by pat_completeness auto
termination
  by (relation "measure (\<lambda>(f, tol, max_iter, x1, x2, iteration, r). nat (max_iter - iteration))")
     auto

declare rf_inner.simps [simp del]

text \<open>The body of \<^verbatim>\<open>for i in range(num_intervals)\<close>.\<close>

definition rf_subinterval ::
  "(real \<Rightarrow> real) \<Rightarrow> real \<Rightarrow> real \<Rightarrow> real \<Rightarrow> int \<Rightarrow> int \<Rightarrow> real list \<times> row list \<Rightarrow>
   py_error + (real list \<times> row list)" where
  "rf_subinterval f a subinterval_size tol max_iter i s =
     (let x1 = a + of_int i * subinterval_size;
          x2 = x1 + subinterval_size
      in if f x1 * f x2 \<ge> 0 then Inr s
         else rf_inner f tol max_iter x1 x2 0 x1 x2 (f x1) (f x2) (fst s) (snd s))"

fun rf_outer ::
  "(real \<Rightarrow> real) \<Rightarrow> real \<Rightarrow> real \<Rightarrow> real \<Rightarrow> int \<Rightarrow> int list \<Rightarrow> real list \<times> row list \<Rightarrow>
   py_error + (real list \<times> row list)" where
  "rf_outer f a subinterval_size tol max_iter [] s = Inr s"
| "rf_outer f a subinterval_size tol max_iter (i # rest) s =
     (case rf_subinterval f a subinterval_size tol max_iter i s of
        Inl e \<Rightarrow> Inl e
      | Inr s' \<Rightarrow> rf_outer f a subinterval_size tol max_iter rest s')"

definition regula_falsi ::
  "(real \<Rightarrow> real) \<Rightarrow> real \<Rightarrow> real \<Rightarrow> real \<Rightarrow> int \<Rightarrow> int \<Rightarrow> py_error + (real list \<times> row list)" where
  "regula_falsi f a b tol max_iter num_intervals =
     (case py_div (b - a) (of_int num_intervals) of
        Inl e \<Rightarrow> Inl e
      | Inr subinterval_size \<Rightarrow>
          rf_outer f a subinterval_size tol max_iter
            (map int [0..<nat num_intervals]) ([], []))"

section \<open>Newton-Raphson\<close>

definition newton_row :: "int \<Rightarrow> real \<Rightarrow> cell \<Rightarrow> real \<Rightarrow> real \<Rightarrow> row" where
  "newton_row iteration x ea fx dfx =
     [(''No. of iteration'', IntC iteration),
      (''xi'', NumC (py_round 6 x)),
      (''ea'', ea),
      (''f(xi)'', NumC (py_round 6 fx)),
      (''f'' @ [CHR 0x27] @ ''(xi)'', NumC (py_round 6 dfx))]"

function newton_loop ::
  "(real \<Rightarrow> real) \<Rightarrow> (real \<Rightarrow> real) \<Rightarrow> real \<Rightarrow> int \<Rightarrow> int \<Rightarrow> real \<Rightarrow>
   real list \<Rightarrow> row list \<Rightarrow> py_error + (real list \<times> row list)" where
  "newton_loop f df tol max_iter iteration x roots table_data =
     (if iteration < max_iter then
        (let fx = f x; dfx = df x in
         if \<bar>dfx\<bar> < eps10
         then Inr (roots, table_data @ [newton_row iteration x NoneC fx dfx])
         else
           (case py_div fx dfx of
              Inl e \<Rightarrow> Inl e
            | Inr q \<Rightarrow>
                (let x_new = x - q in
                 case rel_err x_new x of
                   Inl e \<Rightarrow> Inl e
                 | Inr ea \<Rightarrow>
                     (let table_data' = table_data @
                            [newton_row iteration x (NumC (py_round 3 (ea * 100))) fx dfx]
                      in if ea < tol then Inr (roots @ [py_round 6 x_new], table_data')
                         else
                           (case (if iteration = max_iter - 1 then set_status table_data'
                                  else Inr table_data') of
                              Inl e \<Rightarrow> Inl e
                            | Inr table_data'' \<Rightarrow>
                                newton_loop f df tol max_iter (iteration + 1) x_new
                                  roots table_data'')))))
      else Inr (roots, table_data))"
  by pat_completeness auto
termination
  by (relation "measure (\<lambda>(f, df, tol, max_iter, iteration, r). nat (max_iter - iteration))")
     auto

declare newton_loop.simps [simp del]

text \<open>\<^verbatim>\<open>num_guesses\<close> is a parameter of the source function; its body never reads it.\<close>

definition newton_raphson ::
  "(real \<Rightarrow> real) \<Rightarrow> (real \<Rightarrow> real) \<Rightarrow> real \<Rightarrow> real \<Rightarrow> int \<Rightarrow> int \<Rightarrow>
   py_error + (real list \<times> row list)" where
  "newton_raphson f df x0 tol max_iter num_guesses = newton_loop f df tol max_iter 0 x0 [] []"

section \<open>Secant\<close>

definition secant_row ::
  "int \<Rightarrow> real \<Rightarrow> real \<Rightarrow> real \<Rightarrow> real \<Rightarrow> real \<Rightarrow> real \<Rightarrow> real \<Rightarrow> row" where
  "secant_row iteration xi_prev xi xi_next ea f_prev f_curr f_next =
     [(''Iteration Number'', IntC (iteration + 1)),
      (''xi-1'', NumC (py_round 6 xi_prev)),
      (''xi'', NumC (py_round 6 xi)),
      (''xi+1'', NumC (py_round 6 xi_next)),
      (''ea'', NumC (py_round 3 (ea * 100))),
      (''f(xi-1)'', NumC (py_round 6 f_prev)),
      (''f(xi)'', NumC (py_round 6 f_curr)),
      (''f(xi+1)'', NumC (py_round 6 f_next))]"

function secant_loop ::
  "(real \<Rightarrow> real) \<Rightarrow> real \<Rightarrow> int \<Rightarrow> int \<Rightarrow> real \<Rightarrow> real \<Rightarrow>
   real list \<Rightarrow> row list \<Rightarrow> py_error + (real list \<times> row list)" where
  "secant_loop f tol max_iter iteration xi_prev xi roots table_data =
     (if iteration < max_iter then
        (let f_prev = f xi_prev; f_curr = f xi in
         if \<bar>f_curr - f_prev\<bar> < eps10 then Inr (roots, table_data)
         else
           (case py_div (f_curr * (xi - xi_prev)) (f_curr - f_prev) of
              Inl e \<Rightarrow> Inl e
            | Inr q \<Rightarrow>
                (let xi_next = xi - q in
                 case rel_err xi_next xi of
                   Inl e \<Rightarrow> Inl e
                 | Inr ea \<Rightarrow>
                     (let table_data' = table_data @
                            [secant_row iteration xi_prev xi xi_next ea f_prev f_curr
                               (f xi_next)]
                      in if ea < tol \<and> \<bar>f xi_next\<bar> < tol
                         then Inr (roots @ [py_round 6 xi_next], table_data')
                         else
                           (case (if iteration = max_iter - 1 then set_status table_data'
                                  else Inr table_data') of
                              Inl e \<Rightarrow> Inl e
                            | Inr table_data'' \<Rightarrow>
                                secant_loop f tol max_iter (iteration + 1) xi xi_next
                                  roots table_data'')))))
      else Inr (roots, table_data))"
  by pat_completeness auto
termination
  by (relation "measure (\<lambda>(f, tol, max_iter, iteration, r). nat (max_iter - iteration))")
     auto

declare secant_loop.simps [simp del]

definition secant_method ::
  "(real \<Rightarrow> real) \<Rightarrow> real \<Rightarrow> real \<Rightarrow> real \<Rightarrow> int \<Rightarrow> py_error + (real list \<times> row list)" where
  "secant_method f x0 x1 tol max_iter = secant_loop f tol max_iter 0 x0 x1 [] []"

section \<open>Incremental search\<close>

text \<open>
  Incremental search is the one method that inspects what an evaluation yields, so here the
  objective returns an outcome: it raises, or it returns a float that is finite, infinite or
  NaN.
\<close>

datatype pyfloat = Fin real | PosInf | NegInf | NaN

datatype outcome = Raises | Returns pyfloat

definition isnan :: "pyfloat \<Rightarrow> bool" where
  "isnan v = (v = NaN)"

definition isinf :: "pyfloat \<Rightarrow> bool" where
  "isinf v = (v = PosInf \<or> v = NegInf)"

text \<open>The row of the outer \<^verbatim>\<open>except\<close> branch.\<close>

definition failed_row :: "int \<Rightarrow> real \<Rightarrow> row" where
  "failed_row iteration x =
     [(''i'', IntC iteration),
      (''xi'', NumC (py_round 3 x)),
      (''f(xi)'', StrC ''Unable to evaluate function''),
      (''f(xi)*f(xi+1)'', StrC ''Unable to evaluate function''),
      (''Remark'', StrC ''Function evaluation failed at this point'')]"

text \<open>The row of the \<^verbatim>\<open>try\<close> branch; \<open>product\<close> is \<open>None\<close> for Python's \<^verbatim>\<open>None\<close>.\<close>

definition incremental_row :: "int \<Rightarrow> real \<Rightarrow> pyfloat \<Rightarrow> real option \<Rightarrow> string \<Rightarrow> row" where
  "incremental_row iteration x fx product remark =
     [(''i'', IntC iteration),
      (''xi'', NumC (py_round 3 x)),
      (''f(xi)'', (case fx of Fin y \<Rightarrow> NumC (py_round 6 y)
                   | _ \<Rightarrow> StrC ''Undefined or Infinite'')),
      (''f(xi)*f(xi+1)'', (case product of None \<Rightarrow> StrC ''Undefined or Infinite''
                           | Some p \<Rightarrow> NumC (py_round 6 p))),
      (''Remark'', StrC remark)]"

text \<open>
  The root estimate of the inner \<^verbatim>\<open>try\<close>. Its \<^verbatim>\<open>except: pass\<close> turns a raise into
  "no root"; the estimate of two finite samples is a finite real, so the source's
  \<^verbatim>\<open>isnan\<close>/\<^verbatim>\<open>isinf\<close> test on it always passes here.
\<close>

definition incremental_root :: "real \<Rightarrow> real \<Rightarrow> real \<Rightarrow> real \<Rightarrow> real list" where
  "incremental_root x step y y_next =
     (let x_next = x + step; denominator = y_next - y in
      if \<bar>denominator\<bar> < eps10 then [py_round 6 ((x + x_next) / 2)]
      else (case py_div (step * y) denominator of
              Inl e \<Rightarrow> []
            | Inr q \<Rightarrow> [py_round 6 (x - q)]))"

text \<open>
  One pass of the \<^verbatim>\<open>while\<close> body: the roots and the row it appends. The last case
  is never reached: a float that is neither NaN nor infinite is finite.
\<close>

definition incremental_step ::
  "(real \<Rightarrow> outcome) \<Rightarrow> real \<Rightarrow> real \<Rightarrow> int \<Rightarrow> real list \<times> row list \<Rightarrow> real list \<times> row list" where
  "incremental_step f step x iteration s =
     (let x_next = x + step in
      case f x of
        Raises \<Rightarrow> (fst s, snd s @ [failed_row iteration x])
      | Returns fx \<Rightarrow>
          (case f x_next of
             Raises \<Rightarrow> (fst s, snd s @ [failed_row iteration x])
           | Returns fx_next \<Rightarrow>
               (if isnan fx \<or> isinf fx \<or> isnan fx_next \<or> isinf fx_next
                then (fst s, snd s @ [incremental_row iteration x fx None
                        ''Function is undefined or infinite at this point''])
                else
                  (case (fx, fx_next) of
                     (Fin y, Fin y_next) \<Rightarrow>
                       (let product = y * y_next;
                            remark = (if product > 0 then ''No root in this interval''
                                      else ''A root exists in this interval'');
                            table_data' = snd s @
                              [incremental_row iteration x fx (Some product) remark]
                        in if product \<le> 0
                           then (fst s @ incremental_root x step y y_next, table_data')
                           else (fst s, table_data'))
                   | _ \<Rightarrow> s))))"

text \<open>
  \<^verbatim>\<open>while x <= b\<close> with \<^verbatim>\<open>x = x + step\<close>: nothing in the source bounds the number of
  passes, so the loop is a partial function and \<open>None\<close> is "does not return".
\<close>

partial_function (option) incremental_loop ::
  "(real \<Rightarrow> outcome) \<Rightarrow> real \<Rightarrow> real \<Rightarrow> real \<Rightarrow> int \<Rightarrow> real list \<times> row list \<Rightarrow>
   (real list \<times> row list) option" where
  "incremental_loop f b step x iteration s =
     (if x \<le> b
      then incremental_loop f b step (x + step) (iteration + 1)
             (incremental_step f step x iteration s)
      else Some s)"

declare incremental_loop.simps [code]

definition incremental_search ::
  "(real \<Rightarrow> outcome) \<Rightarrow> real \<Rightarrow> real \<Rightarrow> real \<Rightarrow> (real list \<times> row list) option" where
  "incremental_search f a b step = incremental_loop f b step a 1 ([], [])"

section \<open>Graphical method\<close>

text \<open>\<^verbatim>\<open>np.arange(start, stop, step)\<close> for a positive step.\<close>

definition np_arange :: "real \<Rightarrow> real \<Rightarrow> real \<Rightarrow> real list" where
  "np_arange start stop step =
     map (\<lambda>i. start + real i * step) [0..<nat \<lceil>(stop - start) / step\<rceil>]"

text \<open>numpy's float division: a zero divisor gives NaN or an infinity, with no exception.\<close>

definition np_div :: "real \<Rightarrow> real \<Rightarrow> pyfloat" where
  "np_div x y =
     (if y = 0 then (if x = 0 then NaN else if 0 < x then PosInf else NegInf)
      else Fin (x / y))"

text \<open>\<^verbatim>\<open>round(x0 - q, 6)\<close> for a finite \<open>x0\<close> and a numpy quotient \<open>q\<close>.\<close>

definition interpolate :: "real \<Rightarrow> pyfloat \<Rightarrow> pyfloat" where
  "interpolate x0 q =
     (case q of Fin r \<Rightarrow> Fin (py_round 6 (x0 - r))
      | PosInf \<Rightarrow> NegInf | NegInf \<Rightarrow> PosInf | NaN \<Rightarrow> NaN)"

definition np_diff :: "nat list \<Rightarrow> real list" where
  "np_diff xs = map (\<lambda>i. real (xs ! Suc i) - real (xs ! i)) [0..<length xs - 1]"

definition np_mean :: "real list \<Rightarrow> real" where
  "np_mean xs = sum_list xs / real (length xs)"

definition np_std :: "real list \<Rightarrow> real" where
  "np_std xs = sqrt (np_mean (map (\<lambda>x. \<bar>x - np_mean xs\<bar> ^ 2) xs))"

definition sample_row :: "real \<Rightarrow> real \<Rightarrow> row" where
  "sample_row x fx = [(''x'', NumC (py_round 3 x)), (''f(x)'', NumC (py_round 8 fx))]"

definition period_row :: "real \<Rightarrow> row" where
  "period_row period = [(''x'', StrC ''Period''), (''f(x)'', FmtC ''{period:.6f}'' [period])]"

text \<open>
  The body of \<^verbatim>\<open>for i, x in enumerate(x_vals)\<close>; the state is
  \<open>(roots, table_data, zero_crossings)\<close>.
\<close>

definition graphical_step ::
  "(real \<Rightarrow> real) \<Rightarrow> real list \<Rightarrow> real list \<Rightarrow> nat \<Rightarrow>
   pyfloat list \<times> row list \<times> nat list \<Rightarrow> pyfloat list \<times> row list \<times> nat list" where
  "graphical_step f x_vals y_vals i s =
     (let x = x_vals ! i; fx = f x;
          roots = fst s; table_data = fst (snd s); zero_crossings = snd (snd s);
          table_data' = table_data @ [sample_row x fx]
      in if i > 0 \<and> y_vals ! (i - 1) * y_vals ! i \<le> 0
         then (roots @ [interpolate (x_vals ! (i - 1))
                          (np_div (y_vals ! (i - 1) * (x_vals ! i - x_vals ! (i - 1)))
                                  (y_vals ! i - y_vals ! (i - 1)))],
               table_data', zero_crossings @ [i])
         else (roots, table_data', zero_crossings))"

definition graphical_method ::
  "(real \<Rightarrow> real) \<Rightarrow> real \<Rightarrow> real \<Rightarrow> real \<Rightarrow>
   py_error + (pyfloat list \<times> row list \<times> bool \<times> real option)" where
  "graphical_method f x_min x_max step =
     (if step \<le> 0 then Inl ValueError
      else
        (let x_vals = np_arange x_min (x_max + step / 2) step;
             y_vals = map f x_vals;
             s = fold (graphical_step f x_vals y_vals) [0..<length x_vals] ([], [], []);
             roots = fst s; table_data = fst (snd s); zero_crossings = snd (snd s)
         in if length zero_crossings > 4
            then
              (let intervals = np_diff zero_crossings;
                   avg_interval = np_mean intervals;
                   std_interval = np_std intervals
               in if std_interval < avg_interval * (1 / 10)
                  then Inr (roots, table_data @ [period_row (avg_interval * step)],
                            True, Some (avg_interval * step))
                  else Inr (roots, table_data, False, None))
            else Inr (roots, table_data, False, None)))"

section \<open>Trajectories\<close>

text \<open>
  The claims speak of "the iteration that finds" a condition. The functions of this section
  name the quantities of iteration \<open>k\<close> (counted from 0) of a run that has not stopped
  earlier; the theorems below relate the loops of the source to them.
\<close>

subsection \<open>Newton-Raphson\<close>

text \<open>The iterate \<open>x\<close> at the start of iteration \<open>k\<close>: \<open>x_new = x - f(x)/f'(x)\<close>.\<close>

primrec newton_x :: "(real \<Rightarrow> real) \<Rightarrow> (real \<Rightarrow> real) \<Rightarrow> real \<Rightarrow> nat \<Rightarrow> real" where
  "newton_x f df x0 0 = x0"
| "newton_x f df x0 (Suc k) =
     newton_x f df x0 k - f (newton_x f df x0 k) / df (newton_x f df x0 k)"

text \<open>Iteration \<open>k\<close> finds the derivative too flat.\<close>

definition newton_stall :: "(real \<Rightarrow> real) \<Rightarrow> (real \<Rightarrow> real) \<Rightarrow> real \<Rightarrow> nat \<Rightarrow> bool" where
  "newton_stall f df x0 k = (\<bar>df (newton_x f df x0 k)\<bar> < 1 / 10 ^ 10)"

text \<open>The relative error of iteration \<open>k\<close>: \<open>|x_new - x| / |x_new|\<close>, 0 when \<open>x_new = 0\<close>.\<close>

definition newton_ea :: "(real \<Rightarrow> real) \<Rightarrow> (real \<Rightarrow> real) \<Rightarrow> real \<Rightarrow> nat \<Rightarrow> real" where
  "newton_ea f df x0 k =
     (if newton_x f df x0 (Suc k) = 0 then 0
      else \<bar>newton_x f df x0 (Suc k) - newton_x f df x0 k\<bar> / \<bar>newton_x f df x0 (Suc k)\<bar>)"

text \<open>The row of iteration \<open>k\<close>, built from the pre-update \<open>x\<close>.\<close>

definition newton_rec :: "(real \<Rightarrow> real) \<Rightarrow> (real \<Rightarrow> real) \<Rightarrow> real \<Rightarrow> nat \<Rightarrow> row" where
  "newton_rec f df x0 k =
     newton_row (int k) (newton_x f df x0 k) (NumC (py_round 3 (newton_ea f df x0 k * 100)))
       (f (newton_x f df x0 k)) (df (newton_x f df x0 k))"

text \<open>The row of a stalled iteration \<open>k\<close>: its \<^verbatim>\<open>ea\<close> is \<^verbatim>\<open>None\<close>.\<close>

definition newton_stall_rec :: "(real \<Rightarrow> real) \<Rightarrow> (real \<Rightarrow> real) \<Rightarrow> real \<Rightarrow> nat \<Rightarrow> row" where
  "newton_stall_rec f df x0 k =
     newton_row (int k) (newton_x f df x0 k) NoneC
       (f (newton_x f df x0 k)) (df (newton_x f df x0 k))"

text \<open>The row of iteration \<open>k\<close> with the marker of an exhausted budget.\<close>

definition newton_status_rec :: "(real \<Rightarrow> real) \<Rightarrow> (real \<Rightarrow> real) \<Rightarrow> real \<Rightarrow> nat \<Rightarrow> row" where
  "newton_status_rec f df x0 k =
     AList.update ''Status'' (StrC ''Max iterations reached'') (newton_rec f df x0 k)"

subsection \<open>Secant\<close>

text \<open>
  The points of the secant run: iteration \<open>k\<close> holds the window
  \<open>(secant_x k, secant_x (k + 1))\<close> and computes \<open>secant_x (k + 2)\<close>.
\<close>

fun secant_x :: "(real \<Rightarrow> real) \<Rightarrow> real \<Rightarrow> real \<Rightarrow> nat \<Rightarrow> real" where
  "secant_x f x0 x1 0 = x0"
| "secant_x f x0 x1 (Suc 0) = x1"
| "secant_x f x0 x1 (Suc (Suc k)) =
     secant_x f x0 x1 (Suc k) -
       f (secant_x f x0 x1 (Suc k)) * (secant_x f x0 x1 (Suc k) - secant_x f x0 x1 k) /
       (f (secant_x f x0 x1 (Suc k)) - f (secant_x f x0 x1 k))"

text \<open>Iteration \<open>k\<close> finds the secant slope too small.\<close>

definition secant_flat :: "(real \<Rightarrow> real) \<Rightarrow> real \<Rightarrow> real \<Rightarrow> nat \<Rightarrow> bool" where
  "secant_flat f x0 x1 k =
     (\<bar>f (secant_x f x0 x1 (Suc k)) - f (secant_x f x0 x1 k)\<bar> < 1 / 10 ^ 10)"

definition secant_ea :: "(real \<Rightarrow> real) \<Rightarrow> real \<Rightarrow> real \<Rightarrow> nat \<Rightarrow> real" where
  "secant_ea f x0 x1 k =
     (if secant_x f x0 x1 (Suc (Suc k)) = 0 then 0
      else \<bar>secant_x f x0 x1 (Suc (Suc k)) - secant_x f x0 x1 (Suc k)\<bar> /
           \<bar>secant_x f x0 x1 (Suc (Suc k))\<bar>)"

text \<open>The dual acceptance test of iteration \<open>k\<close>.\<close>

definition secant_accept :: "(real \<Rightarrow> real) \<Rightarrow> real \<Rightarrow> real \<Rightarrow> real \<Rightarrow> nat \<Rightarrow> bool" where
  "secant_accept f x0 x1 tol k =
     (secant_ea f x0 x1 k < tol \<and> \<bar>f (secant_x f x0 x1 (Suc (Suc k)))\<bar> < tol)"

text \<open>
  The row of iteration \<open>k\<close>; its last column is \<open>f\<close> at the point just computed.
\<close>

definition secant_rec :: "(real \<Rightarrow> real) \<Rightarrow> real \<Rightarrow> real \<Rightarrow> nat \<Rightarrow> row" where
  "secant_rec f x0 x1 k =
     secant_row (int k) (secant_x f x0 x1 k) (secant_x f x0 x1 (Suc k))
       (secant_x f x0 x1 (Suc (Suc k))) (secant_ea f x0 x1 k)
       (f (secant_x f x0 x1 k)) (f (secant_x f x0 x1 (Suc k)))
       (f (secant_x f x0 x1 (Suc (Suc k))))"

definition secant_status_rec :: "(real \<Rightarrow> real) \<Rightarrow> real \<Rightarrow> real \<Rightarrow> nat \<Rightarrow> row" where
  "secant_status_rec f x0 x1 k =
     AList.update ''Status'' (StrC ''Max iterations reached'') (secant_rec f x0 x1 k)"

subsection \<open>Bisection\<close>

text \<open>
  The bracket at the start of iteration \<open>k\<close> (the source counts it as iteration
  \<open>k + 1\<close>), its midpoint, and the error and tests of that iteration.
\<close>

primrec bisection_bracket :: "(real \<Rightarrow> real) \<Rightarrow> real \<Rightarrow> real \<Rightarrow> nat \<Rightarrow> real \<times> real" where
  "bisection_bracket f a b 0 = (a, b)"
| "bisection_bracket f a b (Suc k) =
     (let l = fst (bisection_bracket f a b k); r = snd (bisection_bracket f a b k);
          c = (l + r) / 2
      in if f l * f c < 0 then (l, c) else (c, r))"

definition bisection_mid :: "(real \<Rightarrow> real) \<Rightarrow> real \<Rightarrow> real \<Rightarrow> nat \<Rightarrow> real" where
  "bisection_mid f a b k =
     (fst (bisection_bracket f a b k) + snd (bisection_bracket f a b k)) / 2"

text \<open>The approximate relative error in percent; 0 in the first iteration.\<close>

definition bisection_ea :: "(real \<Rightarrow> real) \<Rightarrow> real \<Rightarrow> real \<Rightarrow> nat \<Rightarrow> real" where
  "bisection_ea f a b k =
     (if k = 0 then 0
      else \<bar>(bisection_mid f a b k - bisection_mid f a b (k - 1)) / bisection_mid f a b k\<bar> * 100)"

text \<open>Iteration \<open>k\<close> divides by a midpoint of 0.\<close>

definition bisection_raises :: "(real \<Rightarrow> real) \<Rightarrow> real \<Rightarrow> real \<Rightarrow> nat \<Rightarrow> bool" where
  "bisection_raises f a b k = (0 < k \<and> bisection_mid f a b k = 0)"

text \<open>The relative-error test, which needs a previous iteration.\<close>

definition bisection_converged :: "(real \<Rightarrow> real) \<Rightarrow> real \<Rightarrow> real \<Rightarrow> real \<Rightarrow> nat \<Rightarrow> bool" where
  "bisection_converged f a b tol k = (bisection_ea f a b k < tol \<and> 0 < k)"

text \<open>The residual test \<open>|f(c)| < 1e-10\<close>.\<close>

definition bisection_hit :: "(real \<Rightarrow> real) \<Rightarrow> real \<Rightarrow> real \<Rightarrow> nat \<Rightarrow> bool" where
  "bisection_hit f a b k = (\<bar>f (bisection_mid f a b k)\<bar> < 1 / 10 ^ 10)"

definition bisection_rec :: "(real \<Rightarrow> real) \<Rightarrow> real \<Rightarrow> real \<Rightarrow> nat \<Rightarrow> row" where
  "bisection_rec f a b k =
     (let l = fst (bisection_bracket f a b k); r = snd (bisection_bracket f a b k);
          c = bisection_mid f a b k
      in bisection_row (int k + 1)
           (fst (bisection_bracket f a b (Suc k))) c (snd (bisection_bracket f a b (Suc k)))
           (f l) (f c) (f r) (bisection_ea f a b k)
           (if f l * f c < 0 then ''1st subinterval'' else ''2nd subinterval''))"

definition bisection_x_old :: "(real \<Rightarrow> real) \<Rightarrow> real \<Rightarrow> real \<Rightarrow> nat \<Rightarrow> real option" where
  "bisection_x_old f a b k = (if k = 0 then None else Some (bisection_mid f a b (k - 1)))"

subsection \<open>Regula falsi\<close>

text \<open>
  The bracket \<open>(left, right)\<close> at the start of iteration \<open>k\<close> on the subinterval
  \<open>[x1, x2]\<close>, the false-position point \<open>c\<close> of that iteration, and its two stopping tests.
\<close>

primrec rf_bracket :: "(real \<Rightarrow> real) \<Rightarrow> real \<Rightarrow> real \<Rightarrow> nat \<Rightarrow> real \<times> real" where
  "rf_bracket f x1 x2 0 = (x1, x2)"
| "rf_bracket f x1 x2 (Suc k) =
     (let l = fst (rf_bracket f x1 x2 k); r = snd (rf_bracket f x1 x2 k);
          c = (l * f r - r * f l) / (f r - f l)
      in if f l * f c < 0 then (l, c) else (c, r))"

definition rf_c :: "(real \<Rightarrow> real) \<Rightarrow> real \<Rightarrow> real \<Rightarrow> nat \<Rightarrow> real" where
  "rf_c f x1 x2 k =
     (let l = fst (rf_bracket f x1 x2 k); r = snd (rf_bracket f x1 x2 k)
      in (l * f r - r * f l) / (f r - f l))"

definition rf_hit :: "(real \<Rightarrow> real) \<Rightarrow> real \<Rightarrow> real \<Rightarrow> real \<Rightarrow> nat \<Rightarrow> bool" where
  "rf_hit f x1 x2 tol k = (\<bar>f (rf_c f x1 x2 k)\<bar> < tol)"

text \<open>The width test, on the bracket as updated by iteration \<open>k\<close>.\<close>

definition rf_narrow :: "(real \<Rightarrow> real) \<Rightarrow> real \<Rightarrow> real \<Rightarrow> real \<Rightarrow> nat \<Rightarrow> bool" where
  "rf_narrow f x1 x2 tol k =
     (\<bar>snd (rf_bracket f x1 x2 (Suc k)) - fst (rf_bracket f x1 x2 (Suc k))\<bar> < tol)"

definition rf_rec :: "(real \<Rightarrow> real) \<Rightarrow> real \<Rightarrow> real \<Rightarrow> nat \<Rightarrow> row" where
  "rf_rec f x1 x2 k =
     rf_row x1 x2 (int k) (fst (rf_bracket f x1 x2 k)) (snd (rf_bracket f x1 x2 k))
       (rf_c f x1 x2 k) (f (rf_c f x1 x2 k))"

text \<open>
  Every root of the list has a row in the table that shows it in column \<^verbatim>\<open>c\<close> and whose
  residual \<open>f(c)\<close> is below \<open>tol\<close>.
\<close>

definition rf_recorded :: "real \<Rightarrow> real list \<Rightarrow> row list \<Rightarrow> bool" where
  "rf_recorded tol roots td =
     list_all (\<lambda>r. list_ex (\<lambda>row. map_of row ''c'' = Some (NumC r) \<and>
        (case map_of row ''f(c)'' of Some (FmtC fmt [fc]) \<Rightarrow> \<bar>fc\<bar> < tol | _ \<Rightarrow> False)) td) roots"

subsection \<open>Graphical method\<close>

text \<open>The grid indices at which consecutive samples change sign.\<close>

definition crossings :: "(real \<Rightarrow> real) \<Rightarrow> real list \<Rightarrow> nat list" where
  "crossings f xs = filter (\<lambda>i. 0 < i \<and> f (xs ! (i - 1)) * f (xs ! i) \<le> 0) [0..<length xs]"

subsection \<open>Incremental search\<close>

text \<open>The number of points \<open>a, a + step, \<dots>\<close> that do not exceed \<open>b\<close>, for a positive step.\<close>

definition incremental_passes :: "real \<Rightarrow> real \<Rightarrow> real \<Rightarrow> nat" where
  "incremental_passes a b step = (if a \<le> b then nat \<lfloor>(b - a) / step\<rfloor> + 1 else 0)"

text \<open>What the pass at \<open>x\<close> appends: its roots and its row.\<close>

definition pass_roots :: "(real \<Rightarrow> outcome) \<Rightarrow> real \<Rightarrow> real \<Rightarrow> real list" where
  "pass_roots f step x = fst (incremental_step f step x 0 ([], []))"

definition pass_row :: "(real \<Rightarrow> outcome) \<Rightarrow> real \<Rightarrow> real \<Rightarrow> int \<Rightarrow> row" where
  "pass_row f step x iteration = last (snd (incremental_step f step x iteration ([], [])))"

text \<open>\<open>n\<close> passes of the loop body, one after the other.\<close>

primrec incremental_run ::
  "(real \<Rightarrow> outcome) \<Rightarrow> real \<Rightarrow> real \<Rightarrow> int \<Rightarrow> nat \<Rightarrow> real list \<times> row list \<Rightarrow>
   real list \<times> row list" where
  "incremental_run f step x iteration 0 s = s"
| "incremental_run f step x iteration (Suc n) s =
     incremental_run f step (x + step) (iteration + 1) n (incremental_step f step x iteration s)"

text \<open>The number of rows whose remark reports a root.\<close>

definition root_remarks :: "row list \<Rightarrow> nat" where
  "root_remarks td =
     length (filter (\<lambda>row. map_of row ''Remark'' = Some (StrC ''A root exists in this interval''))
       td)"

section \<open>Objectives of the worked runs\<close>

text \<open>The functions that the worked runs below apply the methods to.\<close>

definition quad :: "real \<Rightarrow> real" where
  "quad x = x ^ 2 - 4"

definition line :: "real \<Rightarrow> real" where
  "line x = x - 1"

definition square_wave :: "real \<Rightarrow> real" where
  "square_wave x = (if even \<lfloor>x\<rfloor> then 1 else - 1)"

definition recip :: "real \<Rightarrow> outcome" where
  "recip x = (if x = 0 then Raises else Returns (Fin (1 / x)))"

definition flat_one :: "real \<Rightarrow> real" where
  "flat_one x = 1"

section \<open>Shared facts\<close>

lemma eps10_pos: "0 < eps10"
  by (simp add: eps10_def)

lemma py_div_guarded: "\<not> \<bar>y\<bar> < eps10 \<Longrightarrow> py_div x y = Inr (x / y)"
  using eps10_pos by (auto simp: py_div_def)

lemma rel_err_total:
  "rel_err x_new x = Inr (if x_new = 0 then 0 else \<bar>x_new - x\<bar> / \<bar>x_new\<bar>)"
  by (simp add: rel_err_def py_div_def abs_divide)

lemma set_status_snoc:
  "set_status (td @ [r]) =
     Inr (td @ [AList.update ''Status'' (StrC ''Max iterations reached'') r])"
  by (simp add: set_status_def)

lemma first_stop_cases:
  fixes max_iter :: int
  obtains (stop) k where "int k < max_iter" "P k" "\<forall>j<k. \<not> P j"
  | (none) "\<forall>j. int j < max_iter \<longrightarrow> \<not> P j"
proof (cases "\<exists>k. int k < max_iter \<and> P k")
  case True
  then obtain k where k: "int k < max_iter \<and> P k" "\<forall>j<k. \<not> (int j < max_iter \<and> P j)"
    using exists_least_iff [of "\<lambda>k. int k < max_iter \<and> P k"] by blast
  have "\<forall>j<k. \<not> P j"
  proof (intro allI impI)
    fix j assume "j < k"
    with k have "int j < max_iter" "\<not> (int j < max_iter \<and> P j)" by auto
    then show "\<not> P j" by simp
  qed
  with k show ?thesis by (auto intro: stop)
next
  case False
  then show ?thesis by (auto intro: none)
qed

section \<open>Newton-Raphson: the run, iteration by iteration\<close>

lemma newton_loop_exit:
  "\<not> iteration < max_iter \<Longrightarrow>
   newton_loop f df tol max_iter iteration x roots td = Inr (roots, td)"
  by (subst newton_loop.simps) simp

lemma newton_loop_stall:
  "iteration < max_iter \<Longrightarrow> \<bar>df x\<bar> < eps10 \<Longrightarrow>
   newton_loop f df tol max_iter iteration x roots td =
     Inr (roots, td @ [newton_row iteration x NoneC (f x) (df x)])"
  by (subst newton_loop.simps) (simp add: Let_def)

lemma newton_loop_step:
  assumes "iteration < max_iter" and "\<not> \<bar>df x\<bar> < eps10"
    and xn: "x - f x / df x = x_new"
    and ea: "(if x_new = 0 then 0 else \<bar>x_new - x\<bar> / \<bar>x_new\<bar>) = ea"
  shows "newton_loop f df tol max_iter iteration x roots td =
     (let r = newton_row iteration x (NumC (py_round 3 (ea * 100))) (f x) (df x) in
      if ea < tol then Inr (roots @ [py_round 6 x_new], td @ [r])
      else if iteration = max_iter - 1
      then Inr (roots, td @ [AList.update ''Status'' (StrC ''Max iterations reached'') r])
      else newton_loop f df tol max_iter (iteration + 1) x_new roots (td @ [r]))"
proof -
  have re: "rel_err x_new x = Inr ea"
    using ea by (simp add: rel_err_total)
  have dv: "py_div (f x) (df x) = Inr (f x / df x)"
    using assms(2) by (rule py_div_guarded)
  show ?thesis
    using assms(1,2) 
    by (subst newton_loop.simps)
       (simp add: Let_def dv xn re set_status_snoc newton_loop_exit)
qed

lemma newton_loop_advance:
  assumes "int k < max_iter"
    and "\<forall>j<k. \<not> newton_stall f df x0 j \<and> \<not> newton_ea f df x0 j < tol"
  shows "newton_loop f df tol max_iter 0 x0 roots [] =
         newton_loop f df tol max_iter (int k) (newton_x f df x0 k) roots
           (map (newton_rec f df x0) [0..<k])"
  using assms
proof (induction k)
  case 0
  show ?case by simp
next
  case (Suc k)
  have ns: "\<not> \<bar>df (newton_x f df x0 k)\<bar> < eps10"
    using Suc.prems(2) by (simp add: newton_stall_def eps10_def)
  have ne: "\<not> newton_ea f df x0 k < tol"
    using Suc.prems(2) by simp
  have lt: "int k < max_iter" "int k \<noteq> max_iter - 1"
    using Suc.prems(1) by auto
  have "newton_loop f df tol max_iter 0 x0 roots [] =
        newton_loop f df tol max_iter (int k) (newton_x f df x0 k) roots
          (map (newton_rec f df x0) [0..<k])"
    using Suc by simp
  also have "\<dots> = newton_loop f df tol max_iter (int (Suc k)) (newton_x f df x0 (Suc k)) roots
          (map (newton_rec f df x0) [0..<Suc k])"
  proof -
    have xn: "newton_x f df x0 k - f (newton_x f df x0 k) / df (newton_x f df x0 k) =
              newton_x f df x0 (Suc k)"
      by simp
    have ea: "(if newton_x f df x0 (Suc k) = 0 then 0
               else \<bar>newton_x f df x0 (Suc k) - newton_x f df x0 k\<bar> /
                    \<bar>newton_x f df x0 (Suc k)\<bar>) = newton_ea f df x0 k"
      by (simp add: newton_ea_def)
    show ?thesis
      using ne lt(2)
      by (subst newton_loop_step [where f = f and df = df and x = "newton_x f df x0 k",
                                   OF lt(1) ns xn ea])
         (simp add: Let_def newton_rec_def add.commute)
  qed
  finally show ?case .
qed


lemma newton_run_at:
  assumes lt: "int k < max_iter"
    and pre: "\<forall>j<k. \<not> newton_stall f df x0 j \<and> \<not> newton_ea f df x0 j < tol"
  shows "newton_loop f df tol max_iter 0 x0 [] [] =
     (if newton_stall f df x0 k
      then Inr ([], map (newton_rec f df x0) [0..<k] @ [newton_stall_rec f df x0 k])
      else if newton_ea f df x0 k < tol
      then Inr ([py_round 6 (newton_x f df x0 (Suc k))], map (newton_rec f df x0) [0..<Suc k])
      else if int k = max_iter - 1
      then Inr ([], map (newton_rec f df x0) [0..<k] @ [newton_status_rec f df x0 k])
      else newton_loop f df tol max_iter (int (Suc k)) (newton_x f df x0 (Suc k)) []
             (map (newton_rec f df x0) [0..<Suc k]))"
proof (cases "newton_stall f df x0 k")
  case True
  then have "\<bar>df (newton_x f df x0 k)\<bar> < eps10"
    by (simp add: newton_stall_def eps10_def)
  with lt True show ?thesis
    by (simp add: newton_loop_advance [OF lt pre] newton_loop_stall newton_stall_rec_def)
next
  case False
  then have ns: "\<not> \<bar>df (newton_x f df x0 k)\<bar> < eps10"
    by (simp add: newton_stall_def eps10_def)
  have xn: "newton_x f df x0 k - f (newton_x f df x0 k) / df (newton_x f df x0 k) =
            newton_x f df x0 (Suc k)"
    by simp
  have ea: "(if newton_x f df x0 (Suc k) = 0 then 0
             else \<bar>newton_x f df x0 (Suc k) - newton_x f df x0 k\<bar> /
                  \<bar>newton_x f df x0 (Suc k)\<bar>) = newton_ea f df x0 k"
    by (simp add: newton_ea_def)
  show ?thesis
    using False
    by (simp only: newton_loop_advance [OF lt pre]
          newton_loop_step [where f = f and df = df and x = "newton_x f df x0 k",
                            OF lt ns xn ea])
       (simp add: Let_def newton_rec_def newton_status_rec_def add.commute)
qed

lemma newton_run_exhausted:
  assumes "\<forall>j. int j < max_iter \<longrightarrow> \<not> newton_stall f df x0 j \<and> \<not> newton_ea f df x0 j < tol"
  shows "newton_loop f df tol max_iter 0 x0 [] [] =
     (if max_iter \<le> 0 then Inr ([], [])
      else Inr ([], map (newton_rec f df x0) [0..<nat max_iter - 1] @
                    [newton_status_rec f df x0 (nat max_iter - 1)]))"
proof (cases "max_iter \<le> 0")
  case True
  then show ?thesis by (simp add: newton_loop_exit)
next
  case False
  define k where "k = nat max_iter - 1"
  have lt: "int k < max_iter" and last: "int k = max_iter - 1"
    using False by (auto simp: k_def)
  have pre: "\<forall>j<k. \<not> newton_stall f df x0 j \<and> \<not> newton_ea f df x0 j < tol"
    using assms lt by auto
  have now: "\<not> newton_stall f df x0 k" "\<not> newton_ea f df x0 k < tol"
    using assms lt by auto
  show ?thesis
    using False now last by (simp add: newton_run_at [OF lt pre] k_def)
qed

lemma newton_run_cases:
  "(\<exists>k. int k < max_iter \<and> newton_stall f df x0 k \<and>
        newton_loop f df tol max_iter 0 x0 [] [] =
          Inr ([], map (newton_rec f df x0) [0..<k] @ [newton_stall_rec f df x0 k])) \<or>
   (\<exists>k. int k < max_iter \<and> \<not> newton_stall f df x0 k \<and> newton_ea f df x0 k < tol \<and>
        newton_loop f df tol max_iter 0 x0 [] [] =
          Inr ([py_round 6 (newton_x f df x0 (Suc k))], map (newton_rec f df x0) [0..<Suc k])) \<or>
   newton_loop f df tol max_iter 0 x0 [] [] =
     (if max_iter \<le> 0 then Inr ([], [])
      else Inr ([], map (newton_rec f df x0) [0..<nat max_iter - 1] @
                    [newton_status_rec f df x0 (nat max_iter - 1)]))"
proof (cases rule: first_stop_cases [of max_iter
         "\<lambda>j. newton_stall f df x0 j \<or> newton_ea f df x0 j < tol"])
  case (stop k)
  from stop(3) have pre: "\<forall>j<k. \<not> newton_stall f df x0 j \<and> \<not> newton_ea f df x0 j < tol"
    by simp
  show ?thesis
  proof (cases "newton_stall f df x0 k")
    case True
    with stop(1) newton_run_at [OF stop(1) pre] show ?thesis by auto
  next
    case False
    with stop(2) have "newton_ea f df x0 k < tol" by simp
    with False stop(1) newton_run_at [OF stop(1) pre] show ?thesis by auto
  qed
next
  case none
  then have "\<forall>j. int j < max_iter \<longrightarrow>
      \<not> newton_stall f df x0 j \<and> \<not> newton_ea f df x0 j < tol"
    by simp
  then show ?thesis
    by (simp only: newton_run_exhausted) simp
qed

lemma newton_result:
  "\<exists>roots td. newton_raphson f df x0 tol max_iter num_guesses = Inr (roots, td) \<and>
     (0 < max_iter \<longrightarrow> td \<noteq> []) \<and>
     (roots = [] \<or>
      (\<exists>k. roots = [py_round 6 (newton_x f df x0 (Suc k))] \<and> length td = Suc k \<and>
           td ! k = newton_rec f df x0 k \<and> \<not> newton_stall f df x0 k \<and>
           newton_ea f df x0 k < tol))"
proof -
  from newton_run_cases [of max_iter f df x0 tol]
  consider
    (stall) k where "int k < max_iter"
      "newton_loop f df tol max_iter 0 x0 [] [] =
         Inr ([], map (newton_rec f df x0) [0..<k] @ [newton_stall_rec f df x0 k])"
  | (accept) k where "int k < max_iter" "\<not> newton_stall f df x0 k" "newton_ea f df x0 k < tol"
      "newton_loop f df tol max_iter 0 x0 [] [] =
         Inr ([py_round 6 (newton_x f df x0 (Suc k))], map (newton_rec f df x0) [0..<Suc k])"
  | (exhausted) "newton_loop f df tol max_iter 0 x0 [] [] =
     (if max_iter \<le> 0 then Inr ([], [])
      else Inr ([], map (newton_rec f df x0) [0..<nat max_iter - 1] @
                    [newton_status_rec f df x0 (nat max_iter - 1)]))"
    by blast
  then show ?thesis
  proof cases
    case stall
    then show ?thesis by (simp add: newton_raphson_def)
  next
    case accept
    then show ?thesis
      by (simp add: newton_raphson_def nth_append del: newton_x.simps(2))
  next
    case exhausted
    then show ?thesis by (simp add: newton_raphson_def)
  qed
qed

lemma newton_stall_rec_ea: "map_of (newton_stall_rec f df x0 k) ''ea'' = Some NoneC"
  by (simp add: newton_stall_rec_def newton_row_def)

subsection \<open>A worked run\<close>

lemma newton_example_iterates:
  "newton_x (\<lambda>x. x ^ 2 - 4) (\<lambda>x. 2 * x) 1 (Suc 0) = 5 / 2"
  "newton_x (\<lambda>x. x ^ 2 - 4) (\<lambda>x. 2 * x) 1 (Suc (Suc 0)) = 41 / 20"
  "newton_x (\<lambda>x. x ^ 2 - 4) (\<lambda>x. 2 * x) 1 (Suc (Suc (Suc 0))) = 3281 / 1640"
  "newton_x (\<lambda>x. x ^ 2 - 4) (\<lambda>x. 2 * x) 1 (Suc (Suc (Suc (Suc 0)))) = 21523361 / 10761680"
  by (simp_all add: power2_eq_square)

lemma upt_four: "[0..<4] = [0, Suc 0, Suc (Suc 0), Suc (Suc (Suc 0))]"
  by (simp add: upt_rec)

lemma py_round_example: "py_round 6 (21523361 / 10761680) = 2"
  by (simp add: py_round_def round_half_even_def Let_def)


section \<open>Secant: the run, iteration by iteration\<close>

lemma secant_loop_exit:
  "\<not> iteration < max_iter \<Longrightarrow>
   secant_loop f tol max_iter iteration xi_prev xi roots td = Inr (roots, td)"
  by (subst secant_loop.simps) simp

lemma secant_loop_flat:
  "iteration < max_iter \<Longrightarrow> \<bar>f xi - f xi_prev\<bar> < eps10 \<Longrightarrow>
   secant_loop f tol max_iter iteration xi_prev xi roots td = Inr (roots, td)"
  by (subst secant_loop.simps) (simp add: Let_def)

lemma secant_loop_step:
  assumes "iteration < max_iter" and "\<not> \<bar>f xi - f xi_prev\<bar> < eps10"
    and xn: "xi - f xi * (xi - xi_prev) / (f xi - f xi_prev) = xi_next"
    and ea: "(if xi_next = 0 then 0 else \<bar>xi_next - xi\<bar> / \<bar>xi_next\<bar>) = ea"
  shows "secant_loop f tol max_iter iteration xi_prev xi roots td =
     (let r = secant_row iteration xi_prev xi xi_next ea (f xi_prev) (f xi) (f xi_next) in
      if ea < tol \<and> \<bar>f xi_next\<bar> < tol then Inr (roots @ [py_round 6 xi_next], td @ [r])
      else if iteration = max_iter - 1
      then Inr (roots, td @ [AList.update ''Status'' (StrC ''Max iterations reached'') r])
      else secant_loop f tol max_iter (iteration + 1) xi xi_next roots (td @ [r]))"
proof -
  have re: "rel_err xi_next xi = Inr ea"
    using ea by (simp add: rel_err_total)
  have dv: "py_div (f xi * (xi - xi_prev)) (f xi - f xi_prev) =
            Inr (f xi * (xi - xi_prev) / (f xi - f xi_prev))"
    using assms(2) by (rule py_div_guarded)
  show ?thesis
    using assms(1,2)
    by (subst secant_loop.simps)
       (simp add: Let_def dv xn re set_status_snoc secant_loop_exit)
qed

lemma secant_step_facts:
  "secant_x f x0 x1 (Suc k) -
     f (secant_x f x0 x1 (Suc k)) * (secant_x f x0 x1 (Suc k) - secant_x f x0 x1 k) /
     (f (secant_x f x0 x1 (Suc k)) - f (secant_x f x0 x1 k)) = secant_x f x0 x1 (Suc (Suc k))"
  "(if secant_x f x0 x1 (Suc (Suc k)) = 0 then 0
    else \<bar>secant_x f x0 x1 (Suc (Suc k)) - secant_x f x0 x1 (Suc k)\<bar> /
         \<bar>secant_x f x0 x1 (Suc (Suc k))\<bar>) = secant_ea f x0 x1 k"
  by (simp_all add: secant_ea_def)

lemma secant_loop_advance:
  assumes "int k < max_iter"
    and "\<forall>j<k. \<not> secant_flat f x0 x1 j \<and> \<not> secant_accept f x0 x1 tol j"
  shows "secant_loop f tol max_iter 0 x0 x1 roots [] =
         secant_loop f tol max_iter (int k) (secant_x f x0 x1 k) (secant_x f x0 x1 (Suc k)) roots
           (map (secant_rec f x0 x1) [0..<k])"
  using assms
proof (induction k)
  case 0
  show ?case by simp
next
  case (Suc k)
  have ns: "\<not> \<bar>f (secant_x f x0 x1 (Suc k)) - f (secant_x f x0 x1 k)\<bar> < eps10"
    using Suc.prems(2) by (simp add: secant_flat_def eps10_def)
  have ne: "(secant_ea f x0 x1 k < tol \<and> \<bar>f (secant_x f x0 x1 (Suc (Suc k)))\<bar> < tol) = False"
    using Suc.prems(2) by (simp add: secant_accept_def del: secant_x.simps(3))
  have lt: "int k < max_iter" "int k \<noteq> max_iter - 1"
    using Suc.prems(1) by auto
  have "secant_loop f tol max_iter 0 x0 x1 roots [] =
        secant_loop f tol max_iter (int k) (secant_x f x0 x1 k) (secant_x f x0 x1 (Suc k)) roots
          (map (secant_rec f x0 x1) [0..<k])"
    using Suc by simp
  also have "\<dots> = secant_loop f tol max_iter (int (Suc k)) (secant_x f x0 x1 (Suc k))
          (secant_x f x0 x1 (Suc (Suc k))) roots (map (secant_rec f x0 x1) [0..<Suc k])"
    using lt(2)
    by (subst secant_loop_step [where f = f and xi = "secant_x f x0 x1 (Suc k)"
            and xi_prev = "secant_x f x0 x1 k", OF lt(1) ns secant_step_facts])
       (simp add: Let_def secant_rec_def ne add.commute del: secant_x.simps(3))
  finally show ?case .
qed

lemma secant_run_at:
  assumes lt: "int k < max_iter"
    and pre: "\<forall>j<k. \<not> secant_flat f x0 x1 j \<and> \<not> secant_accept f x0 x1 tol j"
  shows "secant_loop f tol max_iter 0 x0 x1 [] [] =
     (if secant_flat f x0 x1 k
      then Inr ([], map (secant_rec f x0 x1) [0..<k])
      else if secant_accept f x0 x1 tol k
      then Inr ([py_round 6 (secant_x f x0 x1 (Suc (Suc k)))],
                map (secant_rec f x0 x1) [0..<Suc k])
      else if int k = max_iter - 1
      then Inr ([], map (secant_rec f x0 x1) [0..<k] @ [secant_status_rec f x0 x1 k])
      else secant_loop f tol max_iter (int (Suc k)) (secant_x f x0 x1 (Suc k))
             (secant_x f x0 x1 (Suc (Suc k))) [] (map (secant_rec f x0 x1) [0..<Suc k]))"
proof (cases "secant_flat f x0 x1 k")
  case True
  then have "\<bar>f (secant_x f x0 x1 (Suc k)) - f (secant_x f x0 x1 k)\<bar> < eps10"
    by (simp add: secant_flat_def eps10_def)
  with lt True show ?thesis
    by (simp add: secant_loop_advance [OF lt pre] secant_loop_flat del: secant_x.simps(3))
next
  case False
  then have ns: "\<not> \<bar>f (secant_x f x0 x1 (Suc k)) - f (secant_x f x0 x1 k)\<bar> < eps10"
    by (simp add: secant_flat_def eps10_def)
  show ?thesis
    using False
    by (simp only: secant_loop_advance [OF lt pre]
          secant_loop_step [where f = f and xi = "secant_x f x0 x1 (Suc k)"
            and xi_prev = "secant_x f x0 x1 k", OF lt ns secant_step_facts])
       (simp add: Let_def secant_rec_def secant_status_rec_def secant_accept_def add.commute
             del: secant_x.simps(3))
qed

lemma secant_run_exhausted:
  assumes "\<forall>j. int j < max_iter \<longrightarrow> \<not> secant_flat f x0 x1 j \<and> \<not> secant_accept f x0 x1 tol j"
  shows "secant_loop f tol max_iter 0 x0 x1 [] [] =
     (if max_iter \<le> 0 then Inr ([], [])
      else Inr ([], map (secant_rec f x0 x1) [0..<nat max_iter - 1] @
                    [secant_status_rec f x0 x1 (nat max_iter - 1)]))"
proof (cases "max_iter \<le> 0")
  case True
  then show ?thesis by (simp add: secant_loop_exit)
next
  case False
  define k where "k = nat max_iter - 1"
  have lt: "int k < max_iter" and last: "int k = max_iter - 1"
    using False by (auto simp: k_def)
  have pre: "\<forall>j<k. \<not> secant_flat f x0 x1 j \<and> \<not> secant_accept f x0 x1 tol j"
    using assms lt by auto
  have now: "\<not> secant_flat f x0 x1 k" "\<not> secant_accept f x0 x1 tol k"
    using assms lt by auto
  show ?thesis
    using False now last by (simp add: secant_run_at [OF lt pre] k_def del: secant_x.simps(3))
qed

lemma secant_loop_roots:
  "secant_loop f tol max_iter iteration xi_prev xi roots td = Inr (rs, td') \<Longrightarrow>
   length rs \<le> Suc (length roots)"
proof (induction f tol max_iter iteration xi_prev xi roots td rule: secant_loop.induct)
  case (1 f tol max_iter iteration xi_prev xi roots td)
  show ?case
    using "1.prems" "1.IH"
    by (subst (asm) secant_loop.simps)
       (auto simp: Let_def split: if_splits sum.splits)
qed

lemma secant_run_cases:
  "(\<exists>k. int k < max_iter \<and> secant_flat f x0 x1 k \<and>
        secant_loop f tol max_iter 0 x0 x1 [] [] =
          Inr ([], map (secant_rec f x0 x1) [0..<k])) \<or>
   (\<exists>k. int k < max_iter \<and> \<not> secant_flat f x0 x1 k \<and> secant_accept f x0 x1 tol k \<and>
        secant_loop f tol max_iter 0 x0 x1 [] [] =
          Inr ([py_round 6 (secant_x f x0 x1 (Suc (Suc k)))],
               map (secant_rec f x0 x1) [0..<Suc k])) \<or>
   secant_loop f tol max_iter 0 x0 x1 [] [] =
     (if max_iter \<le> 0 then Inr ([], [])
      else Inr ([], map (secant_rec f x0 x1) [0..<nat max_iter - 1] @
                    [secant_status_rec f x0 x1 (nat max_iter - 1)]))"
proof (cases rule: first_stop_cases [of max_iter
         "\<lambda>j. secant_flat f x0 x1 j \<or> secant_accept f x0 x1 tol j"])
  case (stop k)
  from stop(3) have pre: "\<forall>j<k. \<not> secant_flat f x0 x1 j \<and> \<not> secant_accept f x0 x1 tol j"
    by simp
  show ?thesis
  proof (cases "secant_flat f x0 x1 k")
    case True
    with stop(1) secant_run_at [OF stop(1) pre] show ?thesis by auto
  next
    case False
    with stop(2) have "secant_accept f x0 x1 tol k" by simp
    with False stop(1) secant_run_at [OF stop(1) pre] show ?thesis by auto
  qed
next
  case none
  then have "\<forall>j. int j < max_iter \<longrightarrow>
      \<not> secant_flat f x0 x1 j \<and> \<not> secant_accept f x0 x1 tol j"
    by simp
  then show ?thesis
    by (simp only: secant_run_exhausted) simp
qed

lemma secant_result:
  "\<exists>roots td. secant_method f x0 x1 tol max_iter = Inr (roots, td) \<and>
     (0 < max_iter \<and> \<not> secant_flat f x0 x1 0 \<longrightarrow> td \<noteq> []) \<and>
     (roots = [] \<or>
      (\<exists>k. roots = [py_round 6 (secant_x f x0 x1 (Suc (Suc k)))] \<and> length td = Suc k \<and>
           td ! k = secant_rec f x0 x1 k \<and> secant_accept f x0 x1 tol k))"
proof -
  from secant_run_cases [of max_iter f x0 x1 tol]
  consider
    (flat) k where "int k < max_iter" "secant_flat f x0 x1 k"
      "secant_loop f tol max_iter 0 x0 x1 [] [] = Inr ([], map (secant_rec f x0 x1) [0..<k])"
  | (accept) k where "int k < max_iter" "secant_accept f x0 x1 tol k"
      "secant_loop f tol max_iter 0 x0 x1 [] [] =
         Inr ([py_round 6 (secant_x f x0 x1 (Suc (Suc k)))],
              map (secant_rec f x0 x1) [0..<Suc k])"
  | (exhausted) "secant_loop f tol max_iter 0 x0 x1 [] [] =
     (if max_iter \<le> 0 then Inr ([], [])
      else Inr ([], map (secant_rec f x0 x1) [0..<nat max_iter - 1] @
                    [secant_status_rec f x0 x1 (nat max_iter - 1)]))"
    by blast
  then show ?thesis
  proof cases
    case flat
    have "k \<noteq> 0 \<or> secant_flat f x0 x1 0"
      using flat(2) by (cases k) auto
    with flat show ?thesis
      by (auto simp: secant_method_def)
  next
    case accept
    then show ?thesis
      by (simp add: secant_method_def nth_append del: secant_x.simps(3))
  next
    case exhausted
    then show ?thesis by (simp add: secant_method_def)
  qed
qed

subsection \<open>A worked run\<close>

lemma secant_example_2: "secant_x quad (1 / 2) 5 (Suc (Suc 0)) = 13 / 11"
  by (simp add: quad_def power2_eq_square)

lemma secant_example_3: "secant_x quad (1 / 2) 5 (Suc (Suc (Suc 0))) = 109 / 68"
  by (subst secant_x.simps(3)) (simp add: secant_example_2 quad_def power2_eq_square)

lemma secant_example_4: "secant_x quad (1 / 2) 5 (Suc (Suc (Suc (Suc 0)))) = 4409 / 2083"
  by (subst secant_x.simps(3))
     (simp add: secant_example_2 secant_example_3 quad_def power2_eq_square
        del: secant_x.simps(3))

lemma secant_example_5:
  "secant_x quad (1 / 2) 5 (Suc (Suc (Suc (Suc (Suc 0))))) = 1047157 / 526859"
  by (subst secant_x.simps(3))
     (simp add: secant_example_3 secant_example_4 quad_def power2_eq_square
        del: secant_x.simps(3))

lemma secant_example_6:
  "secant_x quad (1 / 2) 5 (Suc (Suc (Suc (Suc (Suc (Suc 0)))))) = 9006704401 / 4504149362"
  by (subst secant_x.simps(3))
     (simp add: secant_example_4 secant_example_5 quad_def power2_eq_square
        del: secant_x.simps(3))

lemma secant_example_7:
  "secant_x quad (1 / 2) 5 (Suc (Suc (Suc (Suc (Suc (Suc (Suc 0))))))) =
     18923640075293789 / 9461814807470293"
  by (subst secant_x.simps(3))
     (simp add: secant_example_5 secant_example_6 quad_def power2_eq_square
        del: secant_x.simps(3))

lemmas secant_example_iterates =
  secant_example_2 secant_example_3 secant_example_4 secant_example_5 secant_example_6
  secant_example_7

lemma secant_example_round:
  "py_round 6 (18923640075293789 / 9461814807470293) = 2000001 / 1000000"
  by (simp add: py_round_def round_half_even_def Let_def)

lemma nat_five: "(5::nat) = Suc (Suc (Suc (Suc (Suc 0))))"
  by simp

lemma upt_six: "[0..<6] = [0, Suc 0, Suc (Suc 0), Suc (Suc (Suc 0)), Suc (Suc (Suc (Suc 0))),
    Suc (Suc (Suc (Suc (Suc 0))))]"
  by (simp add: upt_rec)

section \<open>Bisection: the run, iteration by iteration\<close>

lemma bisection_loop_exit:
  "\<not> iteration \<le> max_iter \<Longrightarrow>
   bisection_loop f tol max_iter a b iteration x_old roots td = Inr (roots, td)"
  by (subst bisection_loop.simps) simp

lemma bisection_error_at:
  "bisection_error (bisection_x_old f a b k) (bisection_mid f a b k) =
     (if bisection_raises f a b k then Inl ZeroDivisionError else Inr (bisection_ea f a b k))"
  by (simp add: bisection_error_def bisection_x_old_def bisection_raises_def bisection_ea_def
        py_div_def)

lemma bisection_loop_at:
  assumes "int k < max_iter"
  shows "bisection_loop f tol max_iter (fst (bisection_bracket f a b k))
           (snd (bisection_bracket f a b k)) (int k + 1) (bisection_x_old f a b k) roots td =
     (if bisection_raises f a b k then Inl ZeroDivisionError
      else if bisection_converged f a b tol k \<or> bisection_hit f a b k
      then Inr (roots @ [py_round 7 (bisection_mid f a b k)], td @ [bisection_rec f a b k])
      else bisection_loop f tol max_iter (fst (bisection_bracket f a b (Suc k)))
           (snd (bisection_bracket f a b (Suc k))) (int (Suc k) + 1)
           (bisection_x_old f a b (Suc k)) roots (td @ [bisection_rec f a b k]))"
proof -
  have mid: "(fst (bisection_bracket f a b k) + snd (bisection_bracket f a b k)) / 2 =
             bisection_mid f a b k"
    by (simp add: bisection_mid_def)
  have old: "bisection_x_old f a b (Suc k) = Some (bisection_mid f a b k)"
    by (simp add: bisection_x_old_def)
  show ?thesis
    using assms
    by (subst bisection_loop.simps)
       (auto simp: Let_def mid old bisection_error_at bisection_converged_def bisection_hit_def
          bisection_rec_def eps10_def)
qed

lemma bisection_loop_advance:
  assumes "int k \<le> max_iter"
    and "\<forall>j<k. \<not> bisection_raises f a b j \<and> \<not> bisection_converged f a b tol j \<and>
               \<not> bisection_hit f a b j"
  shows "bisection_loop f tol max_iter a b 1 None roots [] =
         bisection_loop f tol max_iter (fst (bisection_bracket f a b k))
           (snd (bisection_bracket f a b k)) (int k + 1) (bisection_x_old f a b k) roots
           (map (bisection_rec f a b) [0..<k])"
  using assms
proof (induction k)
  case 0
  show ?case by (simp add: bisection_x_old_def)
next
  case (Suc k)
  have lt: "int k < max_iter"
    using Suc.prems(1) by simp
  have no: "\<not> bisection_raises f a b k" "\<not> bisection_converged f a b tol k"
    "\<not> bisection_hit f a b k"
    using Suc.prems(2) by simp_all
  have "bisection_loop f tol max_iter a b 1 None roots [] =
        bisection_loop f tol max_iter (fst (bisection_bracket f a b k))
           (snd (bisection_bracket f a b k)) (int k + 1) (bisection_x_old f a b k) roots
           (map (bisection_rec f a b) [0..<k])"
    using Suc by simp
  also have "\<dots> = bisection_loop f tol max_iter (fst (bisection_bracket f a b (Suc k)))
           (snd (bisection_bracket f a b (Suc k))) (int (Suc k) + 1)
           (bisection_x_old f a b (Suc k)) roots (map (bisection_rec f a b) [0..<Suc k])"
    using no by (simp only: bisection_loop_at [OF lt]) simp
  finally show ?case .
qed

lemma bisection_run_at:
  assumes lt: "int k < max_iter"
    and pre: "\<forall>j<k. \<not> bisection_raises f a b j \<and> \<not> bisection_converged f a b tol j \<and>
               \<not> bisection_hit f a b j"
  shows "bisection_loop f tol max_iter a b 1 None [] [] =
     (if bisection_raises f a b k then Inl ZeroDivisionError
      else if bisection_converged f a b tol k \<or> bisection_hit f a b k
      then Inr ([py_round 7 (bisection_mid f a b k)], map (bisection_rec f a b) [0..<Suc k])
      else bisection_loop f tol max_iter (fst (bisection_bracket f a b (Suc k)))
           (snd (bisection_bracket f a b (Suc k))) (int (Suc k) + 1)
           (bisection_x_old f a b (Suc k)) [] (map (bisection_rec f a b) [0..<Suc k]))"
proof -
  have le: "int k \<le> max_iter" using lt by simp
  show ?thesis
    by (simp only: bisection_loop_advance [OF le pre] bisection_loop_at [OF lt]) simp
qed

lemma bisection_run_exhausted:
  assumes "\<forall>j. int j < max_iter \<longrightarrow> \<not> (bisection_raises f a b j \<or>
             bisection_converged f a b tol j \<or> bisection_hit f a b j)"
  shows "bisection_loop f tol max_iter a b 1 None [] [] =
           Inr ([], map (bisection_rec f a b) [0..<nat max_iter])"
proof -
  have le: "int (nat max_iter) \<le> max_iter \<or> max_iter < 0" by auto
  show ?thesis
  proof (cases "max_iter < 0")
    case True
    then show ?thesis by (simp add: bisection_loop_exit)
  next
    case False
    then have le: "int (nat max_iter) \<le> max_iter" by simp
    have pre: "\<forall>j<nat max_iter. \<not> bisection_raises f a b j \<and>
        \<not> bisection_converged f a b tol j \<and> \<not> bisection_hit f a b j"
      using assms by auto
    show ?thesis
      using False by (simp add: bisection_loop_advance [OF le pre] bisection_loop_exit)
  qed
qed

lemma bisection_run_cases:
  "(\<exists>k. int k < max_iter \<and> bisection_raises f a b k \<and>
        bisection_loop f tol max_iter a b 1 None [] [] = Inl ZeroDivisionError) \<or>
   (\<exists>k. int k < max_iter \<and>
        (bisection_converged f a b tol k \<or> bisection_hit f a b k) \<and>
        bisection_loop f tol max_iter a b 1 None [] [] =
          Inr ([py_round 7 (bisection_mid f a b k)], map (bisection_rec f a b) [0..<Suc k])) \<or>
   bisection_loop f tol max_iter a b 1 None [] [] =
     Inr ([], map (bisection_rec f a b) [0..<nat max_iter])"
proof (cases rule: first_stop_cases [of max_iter "\<lambda>j. bisection_raises f a b j \<or>
             bisection_converged f a b tol j \<or> bisection_hit f a b j"])
  case (stop k)
  from stop(3) have pre: "\<forall>j<k. \<not> bisection_raises f a b j \<and>
      \<not> bisection_converged f a b tol j \<and> \<not> bisection_hit f a b j"
    by simp
  show ?thesis
  proof (cases "bisection_raises f a b k")
    case True
    with stop(1) bisection_run_at [OF stop(1) pre] show ?thesis by auto
  next
    case False
    with stop(2) have "bisection_converged f a b tol k \<or> bisection_hit f a b k" by simp
    with False stop(1) bisection_run_at [OF stop(1) pre] show ?thesis by auto
  qed
next
  case none
  then show ?thesis
    by (simp add: bisection_run_exhausted)
qed

lemma bisection_result:
  assumes "bisection_method f a b tol max_iter = Inr (roots, td)"
  shows "(\<not> 0 < f a * f b \<and> 0 < max_iter \<longrightarrow> td \<noteq> []) \<and>
     (roots = [] \<or>
      (\<exists>k. roots = [py_round 7 (bisection_mid f a b k)] \<and> length td = Suc k \<and>
           td ! k = bisection_rec f a b k \<and>
           (bisection_converged f a b tol k \<or> bisection_hit f a b k)))"
proof (cases "0 < f a * f b")
  case True
  with assms show ?thesis by (simp add: bisection_method_def)
next
  case False
  then have m: "bisection_loop f tol max_iter a b 1 None [] [] = Inr (roots, td)"
    using assms by (simp add: bisection_method_def)
  from bisection_run_cases [of max_iter f a b tol]
  consider
    (raise) "bisection_loop f tol max_iter a b 1 None [] [] = Inl ZeroDivisionError"
  | (accept) k where "int k < max_iter"
      "bisection_converged f a b tol k \<or> bisection_hit f a b k"
      "bisection_loop f tol max_iter a b 1 None [] [] =
         Inr ([py_round 7 (bisection_mid f a b k)], map (bisection_rec f a b) [0..<Suc k])"
  | (exhausted) "bisection_loop f tol max_iter a b 1 None [] [] =
         Inr ([], map (bisection_rec f a b) [0..<nat max_iter])"
    by blast
  then show ?thesis
  proof cases
    case raise
    with m show ?thesis by simp
  next
    case accept
    with m have "roots = [py_round 7 (bisection_mid f a b k)]"
      "td = map (bisection_rec f a b) [0..<Suc k]"
      by simp_all
    with accept(2) show ?thesis
      by (simp add: nth_append)
  next
    case exhausted
    with m have "roots = []" "td = map (bisection_rec f a b) [0..<nat max_iter]"
      by simp_all
    then show ?thesis by auto
  qed
qed

subsection \<open>A worked run\<close>

lemma bisection_example_run:
  "bisection_method line 0 4 50 50 =
     Inr ([1], map (bisection_rec line 0 4) [0..<2])"
proof -
  have lt: "int 1 < 50" by simp
  have pre: "\<forall>j<1. \<not> bisection_raises line 0 4 j \<and> \<not> bisection_converged line 0 4 50 j \<and>
               \<not> bisection_hit line 0 4 j"
    by (simp add: bisection_raises_def bisection_converged_def bisection_hit_def
          bisection_mid_def line_def)
  show ?thesis
    using bisection_run_at [OF lt pre]
    by (simp add: bisection_method_def bisection_raises_def bisection_converged_def
          bisection_hit_def bisection_mid_def bisection_ea_def line_def py_round_def
          round_half_even_def Let_def numeral_2_eq_2)
qed

text \<open>
  A bracket whose second midpoint is exactly 0: the relative error divides by it.
\<close>

lemma bisection_example_raise:
  "bisection_method line (- 3) 9 (1 / 2) 50 = Inl ZeroDivisionError"
proof -
  have lt: "int 1 < 50" by simp
  have pre: "\<forall>j<1. \<not> bisection_raises line (- 3) 9 j \<and>
               \<not> bisection_converged line (- 3) 9 (1 / 2) j \<and> \<not> bisection_hit line (- 3) 9 j"
    by (simp add: bisection_raises_def bisection_converged_def bisection_hit_def
          bisection_mid_def line_def)
  have "bisection_raises line (- 3) 9 1"
    by (simp add: bisection_raises_def bisection_mid_def line_def)
  with bisection_run_at [OF lt pre] show ?thesis
    by (simp add: bisection_method_def line_def)
qed

section \<open>Regula falsi: one subinterval, iteration by iteration\<close>

lemma opposite_signs_step:
  fixes u v w :: real
  assumes "u * v < 0" and "\<not> u * w < 0" and "w \<noteq> 0"
  shows "w * v < 0"
proof -
  from assms(1) have u: "u \<noteq> 0" by auto
  with assms(2,3) have "0 < u * w"
    by (metis linorder_neqE_linordered_idom mult_eq_0_iff)
  with assms(1) show ?thesis
    by (auto simp: zero_less_mult_iff mult_less_0_iff)
qed

lemma rf_bracket_signs:
  assumes "f x1 * f x2 < 0"
  shows "f (fst (rf_bracket f x1 x2 k)) * f (snd (rf_bracket f x1 x2 k)) < 0 \<or>
         (f (fst (rf_bracket f x1 x2 k)) = 0 \<and> f (snd (rf_bracket f x1 x2 k)) \<noteq> 0)"
proof (induction k)
  case 0
  with assms show ?case by simp
next
  case (Suc k)
  define l where "l = fst (rf_bracket f x1 x2 k)"
  define r where "r = snd (rf_bracket f x1 x2 k)"
  define c where "c = (l * f r - r * f l) / (f r - f l)"
  have next_eq: "rf_bracket f x1 x2 (Suc k) = (if f l * f c < 0 then (l, c) else (c, r))"
    by (simp add: l_def r_def c_def Let_def)
  from Suc have IH: "f l * f r < 0 \<or> (f l = 0 \<and> f r \<noteq> 0)"
    by (simp add: l_def r_def)
  show ?case
    unfolding next_eq
  proof (cases "f l * f c < 0")
    case True
    then show "f (fst (if f l * f c < 0 then (l, c) else (c, r))) *
       f (snd (if f l * f c < 0 then (l, c) else (c, r))) < 0 \<or>
       f (fst (if f l * f c < 0 then (l, c) else (c, r))) = 0 \<and>
       f (snd (if f l * f c < 0 then (l, c) else (c, r))) \<noteq> 0"
      by simp
  next
    case False
    have "f c * f r < 0 \<or> (f c = 0 \<and> f r \<noteq> 0)"
      using IH
    proof
      assume lr: "f l * f r < 0"
      then have "f r \<noteq> 0" by auto
      show ?thesis
      proof (cases "f c = 0")
        case True
        with \<open>f r \<noteq> 0\<close> show ?thesis by simp
      next
        case nz: False
        from opposite_signs_step [OF lr False nz] show ?thesis by simp
      qed
    next
      assume z: "f l = 0 \<and> f r \<noteq> 0"
      then have "c = l" by (simp add: c_def)
      with z show ?thesis by simp
    qed
    with False show "f (fst (if f l * f c < 0 then (l, c) else (c, r))) *
       f (snd (if f l * f c < 0 then (l, c) else (c, r))) < 0 \<or>
       f (fst (if f l * f c < 0 then (l, c) else (c, r))) = 0 \<and>
       f (snd (if f l * f c < 0 then (l, c) else (c, r))) \<noteq> 0"
      by simp
  qed
qed

lemma rf_no_zero_divisor:
  assumes "f x1 * f x2 < 0"
  shows "f (snd (rf_bracket f x1 x2 k)) - f (fst (rf_bracket f x1 x2 k)) \<noteq> 0"
  using rf_bracket_signs [of f x1 x2 k, OF assms] by auto

lemma rf_inner_exit:
  "\<not> iteration < max_iter \<Longrightarrow>
   rf_inner f tol max_iter x1 x2 iteration left right fl fr roots td = Inr (roots, td)"
  by (subst rf_inner.simps) simp

lemma rf_inner_at:
  assumes "int k < max_iter" and "f x1 * f x2 < 0"
  shows "rf_inner f tol max_iter x1 x2 (int k) (fst (rf_bracket f x1 x2 k))
           (snd (rf_bracket f x1 x2 k)) (f (fst (rf_bracket f x1 x2 k)))
           (f (snd (rf_bracket f x1 x2 k))) roots td =
     (if rf_hit f x1 x2 tol k
      then Inr (if is_unique tol (rf_c f x1 x2 k) roots
                then roots @ [py_round 6 (rf_c f x1 x2 k)] else roots,
                td @ [rf_rec f x1 x2 k])
      else if rf_narrow f x1 x2 tol k then Inr (roots, td @ [rf_rec f x1 x2 k])
      else rf_inner f tol max_iter x1 x2 (int (Suc k)) (fst (rf_bracket f x1 x2 (Suc k)))
           (snd (rf_bracket f x1 x2 (Suc k))) (f (fst (rf_bracket f x1 x2 (Suc k))))
           (f (snd (rf_bracket f x1 x2 (Suc k)))) roots (td @ [rf_rec f x1 x2 k]))"
proof -
  define l where "l = fst (rf_bracket f x1 x2 k)"
  define r where "r = snd (rf_bracket f x1 x2 k)"
  define c where "c = (l * f r - r * f l) / (f r - f l)"
  have nz: "f r - f l \<noteq> 0"
    using rf_no_zero_divisor [of f x1 x2 k, OF assms(2)] by (simp add: l_def r_def)
  have dv: "py_div (l * f r - r * f l) (f r - f l) = Inr c"
    using nz by (simp add: py_div_def c_def)
  have cc: "rf_c f x1 x2 k = c"
    by (simp add: rf_c_def l_def r_def c_def Let_def)
  have next_eq: "rf_bracket f x1 x2 (Suc k) = (if f l * f c < 0 then (l, c) else (c, r))"
    by (simp add: l_def r_def c_def Let_def)
  have "rf_inner f tol max_iter x1 x2 (int k) l r (f l) (f r) roots td =
     (if rf_hit f x1 x2 tol k
      then Inr (if is_unique tol c roots then roots @ [py_round 6 c] else roots,
                td @ [rf_rec f x1 x2 k])
      else if rf_narrow f x1 x2 tol k then Inr (roots, td @ [rf_rec f x1 x2 k])
      else rf_inner f tol max_iter x1 x2 (int (Suc k)) (fst (rf_bracket f x1 x2 (Suc k)))
           (snd (rf_bracket f x1 x2 (Suc k))) (f (fst (rf_bracket f x1 x2 (Suc k))))
           (f (snd (rf_bracket f x1 x2 (Suc k)))) roots (td @ [rf_rec f x1 x2 k]))"
    using assms(1)
    by (subst rf_inner.simps)
       (simp add: dv Let_def rf_hit_def rf_narrow_def cc next_eq rf_rec_def
          l_def [symmetric] r_def [symmetric] add.commute del: rf_bracket.simps)
  then show ?thesis
    by (simp only: l_def r_def cc)
qed

lemma rf_inner_advance:
  assumes "int k \<le> max_iter" and "f x1 * f x2 < 0"
    and "\<forall>j<k. \<not> rf_hit f x1 x2 tol j \<and> \<not> rf_narrow f x1 x2 tol j"
  shows "rf_inner f tol max_iter x1 x2 0 x1 x2 (f x1) (f x2) roots td =
         rf_inner f tol max_iter x1 x2 (int k) (fst (rf_bracket f x1 x2 k))
           (snd (rf_bracket f x1 x2 k)) (f (fst (rf_bracket f x1 x2 k)))
           (f (snd (rf_bracket f x1 x2 k))) roots (td @ map (rf_rec f x1 x2) [0..<k])"
  using assms(1,3)
proof (induction k)
  case 0
  show ?case by simp
next
  case (Suc k)
  have lt: "int k < max_iter"
    using Suc.prems(1) by simp
  have no: "\<not> rf_hit f x1 x2 tol k" "\<not> rf_narrow f x1 x2 tol k"
    using Suc.prems(2) by simp_all
  have "rf_inner f tol max_iter x1 x2 0 x1 x2 (f x1) (f x2) roots td =
         rf_inner f tol max_iter x1 x2 (int k) (fst (rf_bracket f x1 x2 k))
           (snd (rf_bracket f x1 x2 k)) (f (fst (rf_bracket f x1 x2 k)))
           (f (snd (rf_bracket f x1 x2 k))) roots (td @ map (rf_rec f x1 x2) [0..<k])"
    using Suc by simp
  also have "\<dots> = rf_inner f tol max_iter x1 x2 (int (Suc k)) (fst (rf_bracket f x1 x2 (Suc k)))
           (snd (rf_bracket f x1 x2 (Suc k))) (f (fst (rf_bracket f x1 x2 (Suc k))))
           (f (snd (rf_bracket f x1 x2 (Suc k)))) roots (td @ map (rf_rec f x1 x2) [0..<Suc k])"
    using no by (simp only: rf_inner_at [of k max_iter f x1 x2, OF lt assms(2)]) simp
  finally show ?case .
qed

lemma rf_run_at:
  assumes lt: "int k < max_iter" and sign: "f x1 * f x2 < 0"
    and pre: "\<forall>j<k. \<not> rf_hit f x1 x2 tol j \<and> \<not> rf_narrow f x1 x2 tol j"
  shows "rf_inner f tol max_iter x1 x2 0 x1 x2 (f x1) (f x2) roots td =
     (if rf_hit f x1 x2 tol k
      then Inr (if is_unique tol (rf_c f x1 x2 k) roots
                then roots @ [py_round 6 (rf_c f x1 x2 k)] else roots,
                td @ map (rf_rec f x1 x2) [0..<Suc k])
      else if rf_narrow f x1 x2 tol k \<or> int (Suc k) = max_iter
      then Inr (roots, td @ map (rf_rec f x1 x2) [0..<Suc k])
      else rf_inner f tol max_iter x1 x2 (int (Suc k)) (fst (rf_bracket f x1 x2 (Suc k)))
           (snd (rf_bracket f x1 x2 (Suc k))) (f (fst (rf_bracket f x1 x2 (Suc k))))
           (f (snd (rf_bracket f x1 x2 (Suc k)))) roots
           (td @ map (rf_rec f x1 x2) [0..<Suc k]))"
proof -
  have le: "int k \<le> max_iter" using lt by simp
  show ?thesis
    by (simp only: rf_inner_advance [of k max_iter f x1 x2, OF le sign pre]
          rf_inner_at [of k max_iter f x1 x2, OF lt sign])
       (simp add: rf_inner_exit del: rf_bracket.simps)
qed

lemma is_unique_iff: "is_unique tol c roots \<longleftrightarrow> (\<forall>r\<in>set roots. tol \<le> \<bar>c - r\<bar>)"
  by (auto simp: is_unique_def list_all_iff not_less)

lemma rf_recorded_append: "rf_recorded tol roots td \<Longrightarrow> rf_recorded tol roots (td @ rows)"
  by (auto simp: rf_recorded_def list_all_iff list_ex_iff)

lemma rf_recorded_hit:
  "rf_recorded tol roots td \<Longrightarrow> \<bar>fc\<bar> < tol \<Longrightarrow>
   rf_recorded tol (roots @ [py_round 6 c]) (td @ [rf_row x1 x2 iteration left right c fc])"
  by (auto simp: rf_recorded_def list_all_iff list_ex_iff rf_row_def)

lemma rf_inner_recorded:
  "rf_inner f tol max_iter x1 x2 iteration left right fl fr roots td = Inr (roots', td') \<Longrightarrow>
   rf_recorded tol roots td \<Longrightarrow> rf_recorded tol roots' td'"
proof (induction f tol max_iter x1 x2 iteration left right fl fr roots td
       rule: rf_inner.induct)
  case (1 f tol max_iter x1 x2 iteration left right fl fr roots td)
  show ?case
  proof (cases "iteration < max_iter")
    case False
    with "1.prems" show ?thesis
      by (subst (asm) rf_inner.simps) simp
  next
    case True
    show ?thesis
    proof (cases "py_div (left * fr - right * fl) (fr - fl)")
      case (Inl e)
      with True "1.prems" show ?thesis
        by (subst (asm) rf_inner.simps) simp
    next
      case (Inr c)
      define row where "row = rf_row x1 x2 iteration left right c (f c)"
      show ?thesis
      proof (cases "\<bar>f c\<bar> < tol")
        case hit: True
        with True Inr "1.prems"(1)
        have "roots' = (if is_unique tol c roots then roots @ [py_round 6 c] else roots)"
          "td' = td @ [row]"
          by (subst (asm) rf_inner.simps, simp add: Let_def row_def)+
        with hit "1.prems"(2) show ?thesis
          by (simp add: row_def rf_recorded_hit rf_recorded_append)
      next
        case nohit: False
        define right' where "right' = (if fl * f c < 0 then c else right)"
        define fr' where "fr' = (if fl * f c < 0 then f c else fr)"
        define left' where "left' = (if fl * f c < 0 then left else c)"
        define fl' where "fl' = (if fl * f c < 0 then fl else f c)"
        show ?thesis
        proof (cases "\<bar>right' - left'\<bar> < tol")
          case narrow: True
          with True Inr nohit "1.prems"(1)
          have "roots' = roots" "td' = td @ [row]"
            by (subst (asm) rf_inner.simps,
                simp add: Let_def row_def right'_def left'_def)+
          with "1.prems"(2) show ?thesis
            by (simp add: rf_recorded_append)
        next
          case wide: False
          with True Inr nohit "1.prems"(1)
          have run: "rf_inner f tol max_iter x1 x2 (iteration + 1) left' right' fl' fr' roots
                  (td @ [row]) = Inr (roots', td')"
            by (subst (asm) rf_inner.simps)
               (simp add: Let_def row_def right'_def left'_def fl'_def fr'_def)
          have "rf_recorded tol roots (td @ [row])"
            using "1.prems"(2) by (rule rf_recorded_append)
          with "1.IH" [OF True Inr refl refl nohit right'_def fr'_def left'_def fl'_def wide
                 run [unfolded row_def]]
          show ?thesis by (simp add: row_def)
        qed
      qed
    qed
  qed
qed

lemma rf_outer_recorded:
  "rf_outer f a h tol max_iter is s = Inr s' \<Longrightarrow>
   rf_recorded tol (fst s) (snd s) \<Longrightarrow> rf_recorded tol (fst s') (snd s')"
proof (induction "is" arbitrary: s)
  case Nil
  then show ?case by simp
next
  case (Cons i rest)
  from Cons.prems(1) obtain s1 where
    one: "rf_subinterval f a h tol max_iter i s = Inr s1" and
    more: "rf_outer f a h tol max_iter rest s1 = Inr s'"
    by (auto split: sum.splits)
  have "rf_recorded tol (fst s1) (snd s1)"
  proof (cases "f (a + of_int i * h) * f (a + of_int i * h + h) \<ge> 0")
    case True
    with one Cons.prems(2) show ?thesis
      by (simp add: rf_subinterval_def Let_def)
  next
    case False
    with one have "rf_inner f tol max_iter (a + of_int i * h) (a + of_int i * h + h) 0
        (a + of_int i * h) (a + of_int i * h + h) (f (a + of_int i * h))
        (f (a + of_int i * h + h)) (fst s) (snd s) = Inr (fst s1, snd s1)"
      by (simp add: rf_subinterval_def Let_def)
    then show ?thesis
      using Cons.prems(2) by (rule rf_inner_recorded)
  qed
  with more show ?case by (rule Cons.IH)
qed

lemma regula_falsi_recorded:
  assumes "regula_falsi f a b tol max_iter num_intervals = Inr (roots, td)"
  shows "rf_recorded tol roots td"
proof -
  from assms obtain h where
    "rf_outer f a h tol max_iter (map int [0..<nat num_intervals]) ([], []) = Inr (roots, td)"
    by (auto simp: regula_falsi_def split: sum.splits)
  from rf_outer_recorded [OF this] show ?thesis
    by (simp add: rf_recorded_def)
qed

subsection \<open>A worked run\<close>

lemma rf_example_point: "rf_c line 0 4 0 = 1"
  by (simp add: rf_c_def line_def)

lemma rf_example_facts:
  "line 0 * line 4 < 0" "rf_hit line 0 4 (1 / 10 ^ 6) 0" "\<not> line 4 * line 8 < 0"
  "py_round 6 1 = 1"
  by (simp_all add: rf_hit_def rf_example_point line_def py_round_def round_half_even_def)

lemma regula_falsi_example:
  "regula_falsi line 0 4 (1 / 10 ^ 6) 100 1 = Inr ([1], [rf_rec line 0 4 0])"
proof -
  have "rf_inner line (1 / 10 ^ 6) 100 0 4 0 0 4 (line 0) (line 4) [] [] =
        Inr ([1], [rf_rec line 0 4 0])"
    using rf_run_at [of 0 100 line 0 4 "1 / 10 ^ 6" "[]" "[]"] rf_example_facts
    by (simp add: rf_example_point is_unique_def)
  then show ?thesis
    using rf_example_facts(1)
    by (simp add: regula_falsi_def py_div_def rf_subinterval_def Let_def not_le)
qed

section \<open>Graphical method: the scan\<close>

lemma graphical_step_result:
  assumes "n < length xs"
  shows "graphical_step f xs (map f xs) n (roots, td, zc) =
     (if 0 < n \<and> f (xs ! (n - 1)) * f (xs ! n) \<le> 0
      then (roots @ [interpolate (xs ! (n - 1))
                       (np_div (f (xs ! (n - 1)) * (xs ! n - xs ! (n - 1)))
                               (f (xs ! n) - f (xs ! (n - 1))))],
            td @ [sample_row (xs ! n) (f (xs ! n))], zc @ [n])
      else (roots, td @ [sample_row (xs ! n) (f (xs ! n))], zc))"
proof -
  have "n - 1 < length xs" using assms by simp
  with assms show ?thesis
    unfolding graphical_step_def Let_def fst_conv snd_conv
    by (simp only: nth_map)
qed

lemma graphical_fold:
  assumes "n \<le> length xs"
  shows "\<exists>roots. fold (graphical_step f xs (map f xs)) [0..<n] ([], [], []) =
     (roots, map (\<lambda>x. sample_row x (f x)) (take n xs),
      filter (\<lambda>i. 0 < i \<and> f (xs ! (i - 1)) * f (xs ! i) \<le> 0) [0..<n]) \<and>
     length roots =
       length (filter (\<lambda>i. 0 < i \<and> f (xs ! (i - 1)) * f (xs ! i) \<le> 0) [0..<n])"
  using assms
proof (induction n)
  case 0
  show ?case by simp
next
  case (Suc n)
  define cross where "cross = (\<lambda>i. 0 < i \<and> f (xs ! (i - 1)) * f (xs ! i) \<le> 0)"
  from Suc obtain roots where IH:
    "fold (graphical_step f xs (map f xs)) [0..<n] ([], [], []) =
     (roots, map (\<lambda>x. sample_row x (f x)) (take n xs), filter cross [0..<n])"
    and len: "length roots = length (filter cross [0..<n])"
    by (auto simp: cross_def)
  have n: "n < length xs" using Suc.prems by simp
  then have tk: "map (\<lambda>x. sample_row x (f x)) (take (Suc n) xs) =
      map (\<lambda>x. sample_row x (f x)) (take n xs) @ [sample_row (xs ! n) (f (xs ! n))]"
    by (simp add: take_Suc_conv_app_nth)
  have fl: "filter cross [0..<Suc n] = filter cross [0..<n] @ (if cross n then [n] else [])"
    by simp
  have step: "fold (graphical_step f xs (map f xs)) [0..<Suc n] ([], [], []) =
        graphical_step f xs (map f xs) n
          (roots, map (\<lambda>x. sample_row x (f x)) (take n xs), filter cross [0..<n])"
    by (simp add: IH)
  show ?case
  proof (cases "cross n")
    case True
    then have c: "0 < n \<and> f (xs ! (n - 1)) * f (xs ! n) \<le> 0"
      by (simp add: cross_def)
    have "fold (graphical_step f xs (map f xs)) [0..<Suc n] ([], [], []) =
        (roots @ [interpolate (xs ! (n - 1))
                       (np_div (f (xs ! (n - 1)) * (xs ! n - xs ! (n - 1)))
                               (f (xs ! n) - f (xs ! (n - 1))))],
         map (\<lambda>x. sample_row x (f x)) (take (Suc n) xs), filter cross [0..<Suc n])"
      unfolding step graphical_step_result [OF n] tk fl using c True by simp
    moreover have "length (roots @ [interpolate (xs ! (n - 1))
                       (np_div (f (xs ! (n - 1)) * (xs ! n - xs ! (n - 1)))
                               (f (xs ! n) - f (xs ! (n - 1))))]) =
        length (filter cross [0..<Suc n])"
      unfolding fl using len True by simp
    ultimately show ?thesis
      unfolding cross_def by blast
  next
    case False
    then have c: "\<not> (0 < n \<and> f (xs ! (n - 1)) * f (xs ! n) \<le> 0)"
      by (simp add: cross_def)
    have "fold (graphical_step f xs (map f xs)) [0..<Suc n] ([], [], []) =
        (roots, map (\<lambda>x. sample_row x (f x)) (take (Suc n) xs), filter cross [0..<Suc n])"
      unfolding step graphical_step_result [OF n] tk fl using c False by simp
    moreover have "length roots = length (filter cross [0..<Suc n])"
      unfolding fl using len False by simp
    ultimately show ?thesis
      unfolding cross_def by blast
  qed
qed

lemma graphical_loop:
  "\<exists>roots. fold (graphical_step f xs (map f xs)) [0..<length xs] ([], [], []) =
     (roots, map (\<lambda>x. sample_row x (f x)) xs, crossings f xs) \<and>
     length roots = length (crossings f xs)"
  using graphical_fold [of "length xs" xs f] by (simp add: crossings_def)

lemma graphical_result:
  assumes "0 < step"
  shows "\<exists>roots. length roots = length (crossings f (np_arange x_min (x_max + step / 2) step)) \<and>
     graphical_method f x_min x_max step =
     (let xs = np_arange x_min (x_max + step / 2) step;
          zc = crossings f xs;
          period = np_mean (np_diff zc) * step
      in if 5 \<le> length zc \<and> np_std (np_diff zc) < (1 / 10) * np_mean (np_diff zc)
         then Inr (roots, map (\<lambda>x. sample_row x (f x)) xs @ [period_row period], True,
                   Some period)
         else Inr (roots, map (\<lambda>x. sample_row x (f x)) xs, False, None))"
proof -
  define xs where "xs = np_arange x_min (x_max + step / 2) step"
  obtain roots where fl: "fold (graphical_step f xs (map f xs)) [0..<length xs] ([], [], []) =
     (roots, map (\<lambda>x. sample_row x (f x)) xs, crossings f xs)"
    and len: "length roots = length (crossings f xs)"
    using graphical_loop by blast
  have five: "(4 < length (crossings f xs)) = (5 \<le> length (crossings f xs))" by auto
  show ?thesis
    using assms len
    by (intro exI [of _ roots])
       (simp add: graphical_method_def Let_def xs_def [symmetric] fl five mult.commute)
qed

lemma crossings_bound: "i \<in> set (crossings f xs) \<Longrightarrow> i < length xs"
  by (simp add: crossings_def)

lemma graphical_rows:
  assumes "0 < step"
  shows "\<exists>roots td is_periodic period.
     graphical_method f x_min x_max step = Inr (roots, td, is_periodic, period) \<and>
     length roots = length (crossings f (np_arange x_min (x_max + step / 2) step)) \<and>
     list_all (\<lambda>i. i < length td \<and>
          td ! i = sample_row (np_arange x_min (x_max + step / 2) step ! i)
                     (f (np_arange x_min (x_max + step / 2) step ! i)))
       (crossings f (np_arange x_min (x_max + step / 2) step))"
proof -
  define xs where "xs = np_arange x_min (x_max + step / 2) step"
  from graphical_result [OF assms, of f x_min x_max]
  obtain roots where len: "length roots = length (crossings f xs)"
    and res: "graphical_method f x_min x_max step =
       (if 5 \<le> length (crossings f xs) \<and>
           np_std (np_diff (crossings f xs)) < (1 / 10) * np_mean (np_diff (crossings f xs))
        then Inr (roots, map (\<lambda>x. sample_row x (f x)) xs @
                    [period_row (np_mean (np_diff (crossings f xs)) * step)], True,
                  Some (np_mean (np_diff (crossings f xs)) * step))
        else Inr (roots, map (\<lambda>x. sample_row x (f x)) xs, False, None))"
    unfolding Let_def xs_def by blast
  have rows: "\<And>extra. list_all (\<lambda>i. i < length (map (\<lambda>x. sample_row x (f x)) xs @ extra) \<and>
        (map (\<lambda>x. sample_row x (f x)) xs @ extra) ! i = sample_row (xs ! i) (f (xs ! i)))
      (crossings f xs)"
    by (auto simp: list_all_iff nth_append dest: crossings_bound)
  show ?thesis
  proof (cases "5 \<le> length (crossings f xs) \<and>
           np_std (np_diff (crossings f xs)) < (1 / 10) * np_mean (np_diff (crossings f xs))")
    case True
    with res len rows [of "[period_row (np_mean (np_diff (crossings f xs)) * step)]"]
    show ?thesis
      unfolding xs_def [symmetric] by auto
  next
    case False
    with res len rows [of "[]"] show ?thesis
      unfolding xs_def [symmetric] by auto
  qed
qed

subsection \<open>A worked run\<close>

lemma graphical_example_grid: "np_arange 0 (5 + 1 / 2) 1 = [0, 1, 2, 3, 4, 5]"
proof -
  have "\<lceil>(11::real) / 2\<rceil> = 6" by (simp add: ceiling_eq_iff)
  then have "nat \<lceil>(5 + 1 / 2 - 0) / (1::real)\<rceil> = 6" by simp
  then show ?thesis
    by (simp add: np_arange_def upt_rec)
qed

lemma graphical_example_crossings:
  "crossings square_wave [0, 1, 2, 3, 4, 5] = [1, 2, 3, 4, 5]"
  by (simp add: crossings_def square_wave_def upt_rec)

lemma graphical_example_gaps: "np_diff [1, 2, 3, 4, 5] = [1, 1, 1, 1]"
  by (simp add: np_diff_def upt_rec)

lemma graphical_example_stats:
  "np_mean [1, 1, 1, 1] = 1" "np_std [1, 1, 1, 1] = 0"
  by (simp_all add: np_mean_def np_std_def)

section \<open>Incremental search: the scan\<close>

lemma finite_cases:
  "\<not> isnan v \<Longrightarrow> \<not> isinf v \<Longrightarrow> \<exists>y. v = Fin y"
  by (cases v) (simp_all add: isnan_def isinf_def)

lemma incremental_step_appends:
  "incremental_step f step x iteration s =
     (fst s @ pass_roots f step x, snd s @ [pass_row f step x iteration])"
proof (cases "f x")
  case Raises
  then show ?thesis
    by (simp add: incremental_step_def pass_roots_def pass_row_def)
next
  case (Returns fx)
  note fx = this
  show ?thesis
  proof (cases "f (x + step)")
    case Raises
    with fx show ?thesis
      by (simp add: incremental_step_def pass_roots_def pass_row_def)
  next
    case (Returns fy)
    show ?thesis
    proof (cases "isnan fx \<or> isinf fx \<or> isnan fy \<or> isinf fy")
      case True
      with fx Returns show ?thesis
        by (simp add: incremental_step_def pass_roots_def pass_row_def)
    next
      case False
      then obtain y z where "fx = Fin y" "fy = Fin z"
        using finite_cases [of fx] finite_cases [of fy] by auto
      with fx Returns show ?thesis
        by (simp add: incremental_step_def pass_roots_def pass_row_def Let_def isnan_def
              isinf_def)
    qed
  qed
qed

lemma pass_raises:
  "f x = Raises \<or> f (x + step) = Raises \<Longrightarrow>
   pass_roots f step x = [] \<and> pass_row f step x iteration = failed_row iteration x"
  by (auto simp: incremental_step_def pass_roots_def pass_row_def split: outcome.splits)

lemma pass_undefined:
  "f x = Returns fx \<Longrightarrow> f (x + step) = Returns fy \<Longrightarrow>
   isnan fx \<or> isinf fx \<or> isnan fy \<or> isinf fy \<Longrightarrow>
   pass_roots f step x = [] \<and>
   pass_row f step x iteration =
     incremental_row iteration x fx None ''Function is undefined or infinite at this point''"
  by (auto simp: incremental_step_def pass_roots_def pass_row_def)

lemma incremental_passes_next:
  assumes "0 < step" and "x \<le> b"
  shows "incremental_passes x b step = Suc (incremental_passes (x + step) b step)"
proof (cases "x + step \<le> b")
  case True
  have "(b - (x + step)) / step = (b - x) / step - 1"
    using assms(1) by (simp add: field_simps)
  then have fl: "\<lfloor>(b - (x + step)) / step\<rfloor> = \<lfloor>(b - x) / step\<rfloor> - 1"
    by simp
  have "0 \<le> (b - (x + step)) / step"
    using True assms(1) by simp
  then have "0 \<le> \<lfloor>(b - (x + step)) / step\<rfloor>"
    by simp
  with fl have "nat \<lfloor>(b - x) / step\<rfloor> = Suc (nat \<lfloor>(b - (x + step)) / step\<rfloor>)"
    by linarith
  with True assms(2) show ?thesis
    by (simp add: incremental_passes_def)
next
  case False
  have "0 \<le> (b - x) / step" "(b - x) / step < 1"
    using False assms by (simp_all add: field_simps)
  then have "\<lfloor>(b - x) / step\<rfloor> = 0"
    by (simp add: floor_eq_iff)
  with False assms(2) show ?thesis
    by (simp add: incremental_passes_def)
qed

lemma incremental_loop_run:
  assumes "0 < step"
  shows "incremental_passes x b step = n \<Longrightarrow>
         incremental_loop f b step x iteration s =
           Some (incremental_run f step x iteration n s)"
proof (induction n arbitrary: x iteration s)
  case 0
  then have "\<not> x \<le> b"
    by (simp add: incremental_passes_def split: if_splits)
  then show ?case
    by (subst incremental_loop.simps) simp
next
  case (Suc n)
  then have le: "x \<le> b"
    by (simp add: incremental_passes_def split: if_splits)
  with Suc.prems incremental_passes_next [OF assms le]
  have "incremental_passes (x + step) b step = n" by simp
  then have "incremental_loop f b step (x + step) (iteration + 1)
               (incremental_step f step x iteration s) =
             Some (incremental_run f step (x + step) (iteration + 1) n
               (incremental_step f step x iteration s))"
    by (rule Suc.IH)
  with le show ?case
    by (subst incremental_loop.simps) simp
qed

lemma upt_Suc_shift: "[0..<Suc n] = 0 # map Suc [0..<n]"
  by (simp add: upt_conv_Cons map_Suc_upt del: upt_Suc)

lemma incremental_run_result:
  "incremental_run f step x iteration n s =
     (fst s @ concat (map (\<lambda>j. pass_roots f step (x + real j * step)) [0..<n]),
      snd s @ map (\<lambda>j. pass_row f step (x + real j * step) (iteration + int j)) [0..<n])"
proof (induction n arbitrary: x iteration s)
  case 0
  show ?case by simp
next
  case (Suc n)
  have x: "\<And>j. x + step + real j * step = x + real (Suc j) * step"
    by (simp add: algebra_simps)
  have i: "\<And>j. iteration + 1 + int j = iteration + int (Suc j)"
    by simp
  show ?case
    by (simp only: incremental_run.simps Suc.IH incremental_step_appends fst_conv snd_conv
          upt_Suc_shift [of n] x i)
       (simp add: comp_def)
qed


lemma incremental_search_result:
  assumes "0 < step"
  shows "incremental_search f a b step =
     Some (concat (map (\<lambda>j. pass_roots f step (a + real j * step))
                    [0..<incremental_passes a b step]),
           map (\<lambda>j. pass_row f step (a + real j * step) (1 + int j))
               [0..<incremental_passes a b step])"
  unfolding incremental_search_def
  by (simp add: incremental_loop_run [OF assms refl] incremental_run_result)

lemma pass_roots_remark:
  "length (pass_roots f step x) \<le> root_remarks [pass_row f step x iteration]"
  by (auto simp: pass_roots_def pass_row_def incremental_step_def incremental_row_def
        incremental_root_def root_remarks_def failed_row_def Let_def
      split: outcome.splits pyfloat.splits sum.splits)

lemma root_remarks_append: "root_remarks (td @ td') = root_remarks td + root_remarks td'"
  by (simp add: root_remarks_def)

lemma incremental_step_remarks:
  "length (fst s) \<le> root_remarks (snd s) \<Longrightarrow>
   length (fst (incremental_step f step x iteration s)) \<le>
     root_remarks (snd (incremental_step f step x iteration s))"
  using pass_roots_remark [of f step x iteration]
  by (simp add: incremental_step_appends root_remarks_append)

lemma incremental_loop_remarks:
  assumes ret: "incremental_loop f b step x iteration s = Some r"
    and inv: "length (fst s) \<le> root_remarks (snd s)"
  shows "length (fst r) \<le> root_remarks (snd r)"
proof -
  note induct = incremental_loop.raw_induct
    [where P = "\<lambda>f b step x iteration s r.
        length (fst s) \<le> root_remarks (snd s) \<longrightarrow> length (fst r) \<le> root_remarks (snd r)"
      and xa = "(((((f, b), step), x), iteration), s)" and y = r, unfolded prod.case]
  have "length (fst s) \<le> root_remarks (snd s) \<longrightarrow> length (fst r) \<le> root_remarks (snd r)"
  proof (rule induct [OF _ ret])
    fix loop :: "(real \<Rightarrow> outcome) \<Rightarrow> real \<Rightarrow> real \<Rightarrow> real \<Rightarrow> int \<Rightarrow> real list \<times> row list
        \<Rightarrow> (real list \<times> row list) option"
    fix f b step x iteration s r
    assume IH: "\<And>f b step x iteration s r. loop f b step x iteration s = Some r \<Longrightarrow>
        length (fst s) \<le> root_remarks (snd s) \<longrightarrow> length (fst r) \<le> root_remarks (snd r)"
      and eq: "(if x \<le> b
         then loop f b step (x + step) (iteration + 1) (incremental_step f step x iteration s)
         else Some s) = Some r"
    show "length (fst s) \<le> root_remarks (snd s) \<longrightarrow> length (fst r) \<le> root_remarks (snd r)"
    proof (cases "x \<le> b")
      case True
      with eq have "loop f b step (x + step) (iteration + 1)
          (incremental_step f step x iteration s) = Some r"
        by simp
      from IH [OF this] show ?thesis
        using incremental_step_remarks [of s f step x iteration] by blast
    next
      case False
      with eq show ?thesis by simp
    qed
  qed
  with inv show ?thesis by simp
qed

lemma incremental_search_remarks:
  "incremental_search f a b step = Some (roots, td) \<Longrightarrow> length roots \<le> root_remarks td"
  using incremental_loop_remarks [of f b step a 1 "([], [])" "(roots, td)"]
  by (simp add: incremental_search_def root_remarks_def)

lemma incremental_step_raises:
  "f x = Raises \<or> f (x + step) = Raises \<Longrightarrow>
   incremental_step f step x iteration (roots, td) = (roots, td @ [failed_row iteration x])"
  using pass_raises [of f x step iteration]
  by (simp add: incremental_step_appends)

lemma incremental_step_undefined:
  "f x = Returns fx \<Longrightarrow> f (x + step) = Returns fy \<Longrightarrow>
   isnan fx \<or> isinf fx \<or> isnan fy \<or> isinf fy \<Longrightarrow>
   incremental_step f step x iteration (roots, td) =
     (roots, td @ [incremental_row iteration x fx None
                     ''Function is undefined or infinite at this point''])"
  using pass_undefined [of f x fx step fy iteration]
  by (simp add: incremental_step_appends)

subsection \<open>A worked run\<close>

lemma incremental_example_passes: "incremental_passes (- 1) 1 1 = 3"
  by (simp add: incremental_passes_def)

lemma incremental_example_row: "pass_row recip 1 0 2 = failed_row 2 0"
  using pass_raises [of recip 0 1 2] by (simp add: recip_def)

section \<open>Claims\<close>

text \<open>
  C1. Whenever \<open>f(a) * f(b) > 0\<close>, \<open>bisection_method\<close> returns the pair of an empty root
  list and an empty row list; no iteration is performed, since every iteration appends a row.
\<close>

theorem bisection_no_sign_change:
  "f a * f b > 0 \<Longrightarrow> bisection_method f a b tol max_iter = Inr ([], [])"
  by (simp add: bisection_method_def)

theorem bisection_no_sign_change_witness:
  "bisection_method (\<lambda>x. x ^ 2 + 1) (- 1) 1 (1 / 2) 50 = Inr ([], [])"
  using bisection_no_sign_change [of "\<lambda>x. x ^ 2 + 1" "- 1" 1 "1 / 2" 50] by simp

text \<open>
  C2. Let iteration \<open>k\<close> of \<open>secant_method\<close> be reached (no earlier iteration found a
  flat slope or accepted a root). If its slope is not flat, it computes \<open>x\<^sub>k\<^sub>+\<^sub>2\<close> and
  appends the row of iteration \<open>k\<close>, whose last column is the freshly evaluated
  \<open>f(x\<^sub>k\<^sub>+\<^sub>2)\<close>, whether or not the point is accepted; the point is returned as the root
  exactly when both \<open>ea < tol\<close> and \<open>|f(x\<^sub>k\<^sub>+\<^sub>2)| < tol\<close> hold, and otherwise the run goes
  on (or ends on the exhausted budget) with no root added. No run returns more than one
  root.
\<close>

theorem secant_method_iteration:
  assumes "int k < max_iter"
    and "\<forall>j<k. \<not> secant_flat f x0 x1 j \<and> \<not> secant_accept f x0 x1 tol j"
  shows "secant_method f x0 x1 tol max_iter =
     (if secant_flat f x0 x1 k
      then Inr ([], map (secant_rec f x0 x1) [0..<k])
      else if secant_accept f x0 x1 tol k
      then Inr ([py_round 6 (secant_x f x0 x1 (Suc (Suc k)))],
                map (secant_rec f x0 x1) [0..<Suc k])
      else if int k = max_iter - 1
      then Inr ([], map (secant_rec f x0 x1) [0..<k] @ [secant_status_rec f x0 x1 k])
      else secant_loop f tol max_iter (int (Suc k)) (secant_x f x0 x1 (Suc k))
             (secant_x f x0 x1 (Suc (Suc k))) [] (map (secant_rec f x0 x1) [0..<Suc k]))
   \<and> map_of (secant_rec f x0 x1 k) ''f(xi+1)'' =
       Some (NumC (py_round 6 (f (secant_x f x0 x1 (Suc (Suc k))))))
   \<and> (\<forall>roots td. secant_method f x0 x1 tol max_iter = Inr (roots, td) \<longrightarrow> length roots \<le> 1)"
proof (intro conjI)
  show "secant_method f x0 x1 tol max_iter =
     (if secant_flat f x0 x1 k
      then Inr ([], map (secant_rec f x0 x1) [0..<k])
      else if secant_accept f x0 x1 tol k
      then Inr ([py_round 6 (secant_x f x0 x1 (Suc (Suc k)))],
                map (secant_rec f x0 x1) [0..<Suc k])
      else if int k = max_iter - 1
      then Inr ([], map (secant_rec f x0 x1) [0..<k] @ [secant_status_rec f x0 x1 k])
      else secant_loop f tol max_iter (int (Suc k)) (secant_x f x0 x1 (Suc k))
             (secant_x f x0 x1 (Suc (Suc k))) [] (map (secant_rec f x0 x1) [0..<Suc k]))"
    unfolding secant_method_def using assms by (rule secant_run_at)
next
  show "map_of (secant_rec f x0 x1 k) ''f(xi+1)'' =
       Some (NumC (py_round 6 (f (secant_x f x0 x1 (Suc (Suc k))))))"
    by (simp add: secant_rec_def secant_row_def del: secant_x.simps(3))
next
  show "\<forall>roots td. secant_method f x0 x1 tol max_iter = Inr (roots, td) \<longrightarrow> length roots \<le> 1"
    unfolding secant_method_def using secant_loop_roots [of f tol max_iter 0 x0 x1 "[]" "[]"]
    by auto
qed

theorem secant_method_iteration_witness:
  "secant_method quad (1 / 2) 5 (1 / 1000) 100 =
     Inr ([2000001 / 1000000], map (secant_rec quad (1 / 2) 5) [0..<6])"
proof -
  have pre: "\<forall>j<5. \<not> secant_flat quad (1 / 2) 5 j \<and>
                  \<not> secant_accept quad (1 / 2) 5 (1 / 1000) j"
    by (simp add: nat_five All_less_Suc secant_flat_def secant_accept_def secant_ea_def
          quad_def power2_eq_square secant_example_iterates del: secant_x.simps(3))
  have now: "\<not> secant_flat quad (1 / 2) 5 5"
    "secant_accept quad (1 / 2) 5 (1 / 1000) 5"
    by (simp_all add: nat_five secant_flat_def secant_accept_def secant_ea_def
          quad_def power2_eq_square secant_example_iterates del: secant_x.simps(3))
  show ?thesis
    using secant_method_iteration [of 5 100 quad "1 / 2" 5 "1 / 1000", OF _ pre] now
    by (simp add: nat_five secant_example_iterates secant_example_round upt_six
          del: secant_x.simps(3))
qed

text \<open>
  C3. Let iteration \<open>k\<close> of \<open>newton_raphson\<close> be reached (no earlier iteration stalled or
  converged). If it finds \<open>|f'(x)| < 1e-10\<close>, the run ends there: the stall row of
  iteration \<open>k\<close> is appended, no root is added and nothing is raised. Otherwise the row of
  iteration \<open>k\<close>, built from the pre-update \<open>x\<close>, is appended, and \<open>x_new\<close> is returned as
  the root exactly when \<open>ea < tol\<close>; when \<open>ea \<ge> tol\<close> the run goes on (or ends on the
  exhausted budget) with no root added.
\<close>

theorem newton_raphson_iteration:
  assumes "int k < max_iter"
    and "\<forall>j<k. \<not> newton_stall f df x0 j \<and> \<not> newton_ea f df x0 j < tol"
  shows "newton_raphson f df x0 tol max_iter num_guesses =
     (if newton_stall f df x0 k
      then Inr ([], map (newton_rec f df x0) [0..<k] @ [newton_stall_rec f df x0 k])
      else if newton_ea f df x0 k < tol
      then Inr ([py_round 6 (newton_x f df x0 (Suc k))], map (newton_rec f df x0) [0..<Suc k])
      else if int k = max_iter - 1
      then Inr ([], map (newton_rec f df x0) [0..<k] @ [newton_status_rec f df x0 k])
      else newton_loop f df tol max_iter (int (Suc k)) (newton_x f df x0 (Suc k)) []
             (map (newton_rec f df x0) [0..<Suc k]))
   \<and> map_of (newton_rec f df x0 k) ''xi'' = Some (NumC (py_round 6 (newton_x f df x0 k)))
   \<and> map_of (newton_stall_rec f df x0 k) ''xi'' = Some (NumC (py_round 6 (newton_x f df x0 k)))"
proof (intro conjI)
  show "newton_raphson f df x0 tol max_iter num_guesses =
     (if newton_stall f df x0 k
      then Inr ([], map (newton_rec f df x0) [0..<k] @ [newton_stall_rec f df x0 k])
      else if newton_ea f df x0 k < tol
      then Inr ([py_round 6 (newton_x f df x0 (Suc k))], map (newton_rec f df x0) [0..<Suc k])
      else if int k = max_iter - 1
      then Inr ([], map (newton_rec f df x0) [0..<k] @ [newton_status_rec f df x0 k])
      else newton_loop f df tol max_iter (int (Suc k)) (newton_x f df x0 (Suc k)) []
             (map (newton_rec f df x0) [0..<Suc k]))"
    unfolding newton_raphson_def using assms by (rule newton_run_at)
next
  show "map_of (newton_rec f df x0 k) ''xi'' = Some (NumC (py_round 6 (newton_x f df x0 k)))"
    by (simp add: newton_rec_def newton_row_def)
next
  show "map_of (newton_stall_rec f df x0 k) ''xi'' =
        Some (NumC (py_round 6 (newton_x f df x0 k)))"
    by (simp add: newton_stall_rec_def newton_row_def)
qed

theorem newton_raphson_iteration_witness:
  "newton_raphson (\<lambda>x. x ^ 2 - 4) (\<lambda>x. 2 * x) 0 (1 / 1000) 100 5 =
     Inr ([], [newton_row 0 0 NoneC (- 4) 0])
   \<and> newton_raphson (\<lambda>x. x ^ 2 - 4) (\<lambda>x. 2 * x) 1 (1 / 1000) 100 5 =
     Inr ([2], map (newton_rec (\<lambda>x. x ^ 2 - 4) (\<lambda>x. 2 * x) 1) [0..<4])"
proof
  show "newton_raphson (\<lambda>x. x ^ 2 - 4) (\<lambda>x. 2 * x) 0 (1 / 1000) 100 5 =
     Inr ([], [newton_row 0 0 NoneC (- 4) 0])"
    using newton_raphson_iteration [of 0 100 "\<lambda>x. x ^ 2 - 4" "\<lambda>x. 2 * x" 0 "1 / 1000" 5]
    by (simp add: newton_stall_def newton_stall_rec_def)
next
  have pre: "\<forall>j<3. \<not> newton_stall (\<lambda>x. x ^ 2 - 4) (\<lambda>x. 2 * x) 1 j \<and>
                  \<not> newton_ea (\<lambda>x. x ^ 2 - 4) (\<lambda>x. 2 * x) 1 j < 1 / 1000"
    by (simp add: numeral_3_eq_3 All_less_Suc newton_stall_def newton_ea_def
          newton_example_iterates del: newton_x.simps(2))
  have now: "\<not> newton_stall (\<lambda>x. x ^ 2 - 4) (\<lambda>x. 2 * x) 1 3"
    "newton_ea (\<lambda>x. x ^ 2 - 4) (\<lambda>x. 2 * x) 1 3 < 1 / 1000"
    by (simp_all add: numeral_3_eq_3 newton_stall_def newton_ea_def
          newton_example_iterates del: newton_x.simps(2))
  show "newton_raphson (\<lambda>x. x ^ 2 - 4) (\<lambda>x. 2 * x) 1 (1 / 1000) 100 5 =
     Inr ([2], map (newton_rec (\<lambda>x. x ^ 2 - 4) (\<lambda>x. 2 * x) 1) [0..<4])"
    using newton_raphson_iteration [of 3 100 "\<lambda>x. x ^ 2 - 4" "\<lambda>x. 2 * x" 1 "1 / 1000" 5, OF _ pre]
      now
    by (simp add: numeral_3_eq_3 newton_example_iterates py_round_example upt_four
          del: newton_x.simps(2))
qed

text \<open>
  C4. The body of the scan over the \<open>num_intervals\<close> subintervals leaves roots and rows
  untouched when \<open>f(x1) * f(x2) < 0\<close> fails, and otherwise runs the false-position
  iteration on \<open>[x1, x2]\<close>. If iteration \<open>k\<close> of that run is reached (no earlier one stopped
  it), it appends its row and then: stops when \<open>|f(c)| < tol\<close>, adding \<open>c\<close> (rounded) to the
  roots only if \<open>c\<close> is at least \<open>tol\<close> away from every root found so far; else stops when
  the updated bracket is narrower than \<open>tol\<close> or when iteration \<open>k\<close> was the last of the
  \<open>max_iter\<close> allowed; else goes on with iteration \<open>k + 1\<close>.
\<close>

theorem regula_falsi_subinterval:
  assumes "int k < max_iter"
    and "\<forall>j<k. \<not> rf_hit f x1 x2 tol j \<and> \<not> rf_narrow f x1 x2 tol j"
    and "x1 = a + of_int i * h" and "x2 = x1 + h"
  shows "rf_subinterval f a h tol max_iter i (roots, td) =
     (if \<not> f x1 * f x2 < 0 then Inr (roots, td)
      else if rf_hit f x1 x2 tol k
      then Inr (if \<forall>r\<in>set roots. tol \<le> \<bar>rf_c f x1 x2 k - r\<bar>
                then roots @ [py_round 6 (rf_c f x1 x2 k)] else roots,
                td @ map (rf_rec f x1 x2) [0..<Suc k])
      else if rf_narrow f x1 x2 tol k \<or> int (Suc k) = max_iter
      then Inr (roots, td @ map (rf_rec f x1 x2) [0..<Suc k])
      else rf_inner f tol max_iter x1 x2 (int (Suc k)) (fst (rf_bracket f x1 x2 (Suc k)))
           (snd (rf_bracket f x1 x2 (Suc k))) (f (fst (rf_bracket f x1 x2 (Suc k))))
           (f (snd (rf_bracket f x1 x2 (Suc k)))) roots
           (td @ map (rf_rec f x1 x2) [0..<Suc k]))"
proof (cases "f x1 * f x2 < 0")
  case False
  then show ?thesis
    using assms(3,4) by (simp add: rf_subinterval_def Let_def not_less)
next
  case True
  have "rf_subinterval f a h tol max_iter i (roots, td) =
        rf_inner f tol max_iter x1 x2 0 x1 x2 (f x1) (f x2) roots td"
    using True assms(3,4) by (simp add: rf_subinterval_def Let_def)
  then show ?thesis
    using True
    by (simp only: rf_run_at [of k max_iter f x1 x2, OF assms(1) True assms(2)] is_unique_iff)
       simp
qed

theorem regula_falsi_subinterval_witness:
  "rf_subinterval line 0 4 (1 / 10 ^ 6) 100 0 ([], []) = Inr ([1], [rf_rec line 0 4 0])
   \<and> rf_subinterval line 0 4 (1 / 10 ^ 6) 100 1 ([], []) = Inr ([], [])"
proof
  have "rf_subinterval line 0 4 (1 / 10 ^ 6) 100 0 ([], []) =
     (if \<not> line 0 * line 4 < 0 then Inr ([], [])
      else if rf_hit line 0 4 (1 / 10 ^ 6) 0
      then Inr (if \<forall>r\<in>set []. 1 / 10 ^ 6 \<le> \<bar>rf_c line 0 4 0 - r\<bar>
                then [] @ [py_round 6 (rf_c line 0 4 0)] else [],
                [] @ map (rf_rec line 0 4) [0..<Suc 0])
      else if rf_narrow line 0 4 (1 / 10 ^ 6) 0 \<or> int (Suc 0) = 100
      then Inr ([], [] @ map (rf_rec line 0 4) [0..<Suc 0])
      else rf_inner line (1 / 10 ^ 6) 100 0 4 (int (Suc 0)) (fst (rf_bracket line 0 4 (Suc 0)))
           (snd (rf_bracket line 0 4 (Suc 0))) (line (fst (rf_bracket line 0 4 (Suc 0))))
           (line (snd (rf_bracket line 0 4 (Suc 0)))) []
           ([] @ map (rf_rec line 0 4) [0..<Suc 0]))"
    by (rule regula_falsi_subinterval) simp_all
  then show "rf_subinterval line 0 4 (1 / 10 ^ 6) 100 0 ([], []) =
      Inr ([1], [rf_rec line 0 4 0])"
    by (simp only: rf_example_facts rf_example_point if_True if_False not_True_eq_False)
       simp
next
  have "rf_subinterval line 0 4 (1 / 10 ^ 6) 100 1 ([], []) =
     (if \<not> line 4 * line 8 < 0 then Inr ([], [])
      else if rf_hit line 4 8 (1 / 10 ^ 6) 0
      then Inr (if \<forall>r\<in>set []. 1 / 10 ^ 6 \<le> \<bar>rf_c line 4 8 0 - r\<bar>
                then [] @ [py_round 6 (rf_c line 4 8 0)] else [],
                [] @ map (rf_rec line 4 8) [0..<Suc 0])
      else if rf_narrow line 4 8 (1 / 10 ^ 6) 0 \<or> int (Suc 0) = 100
      then Inr ([], [] @ map (rf_rec line 4 8) [0..<Suc 0])
      else rf_inner line (1 / 10 ^ 6) 100 4 8 (int (Suc 0)) (fst (rf_bracket line 4 8 (Suc 0)))
           (snd (rf_bracket line 4 8 (Suc 0))) (line (fst (rf_bracket line 4 8 (Suc 0))))
           (line (snd (rf_bracket line 4 8 (Suc 0)))) []
           ([] @ map (rf_rec line 4 8) [0..<Suc 0]))"
    by (rule regula_falsi_subinterval) simp_all
  then show "rf_subinterval line 0 4 (1 / 10 ^ 6) 100 1 ([], []) = Inr ([], [])"
    by (simp only: rf_example_facts not_False_eq_True if_True)
qed

text \<open>
  C5. For a positive step, \<open>graphical_method\<close> returns \<open>is_periodic = True\<close> exactly when
  at least 5 sign-change grid indices were collected and the standard deviation of the gaps
  between consecutive indices is below 0.1 times their mean. Then the period is the mean gap
  times the step and the table is the sampled rows followed by one row that carries the
  period; otherwise \<open>is_periodic = False\<close>, the period is \<open>None\<close> and the table is the
  sampled rows alone.
\<close>

theorem graphical_periodicity:
  assumes "0 < step"
  shows "\<exists>roots. graphical_method f x_min x_max step =
     (let xs = np_arange x_min (x_max + step / 2) step;
          zc = crossings f xs;
          period = np_mean (np_diff zc) * step
      in if 5 \<le> length zc \<and> np_std (np_diff zc) < (1 / 10) * np_mean (np_diff zc)
         then Inr (roots, map (\<lambda>x. sample_row x (f x)) xs @ [period_row period], True,
                   Some period)
         else Inr (roots, map (\<lambda>x. sample_row x (f x)) xs, False, None))"
  using graphical_result [OF assms, of f x_min x_max] by blast

theorem graphical_periodicity_witness:
  "\<exists>roots. graphical_method square_wave 0 5 1 =
     Inr (roots, map (\<lambda>x. sample_row x (square_wave x)) [0, 1, 2, 3, 4, 5] @ [period_row 1],
          True, Some 1)"
  using graphical_periodicity [of 1 square_wave 0 5]
  unfolding Let_def graphical_example_grid graphical_example_crossings graphical_example_gaps
    graphical_example_stats
  by simp

text \<open>
  C6. A pass of \<open>incremental_search\<close> in which an evaluation of \<open>f\<close> raises appends the row
  with the failed-evaluation placeholders and remark, and adds no root; a pass in which both
  evaluations return but one value is NaN or infinite appends the row with the
  undefined-or-infinite remark, and adds no root. For a positive step the search returns one
  row for each of its passes, the failing ones included, so the scan goes on past them and
  nothing is raised to the caller.
\<close>

theorem incremental_search_tolerates_failures:
  "(f x = Raises \<or> f (x + step) = Raises \<longrightarrow>
      incremental_step f step x iteration (roots0, td0) =
        (roots0, td0 @ [failed_row iteration x]))
   \<and> (f x = Returns fx \<and> f (x + step) = Returns fy \<and>
        (isnan fx \<or> isinf fx \<or> isnan fy \<or> isinf fy) \<longrightarrow>
      incremental_step f step x iteration (roots0, td0) =
        (roots0, td0 @ [incremental_row iteration x fx None
                          ''Function is undefined or infinite at this point'']))
   \<and> (0 < step \<and> k < incremental_passes a b step \<longrightarrow>
       (\<exists>roots td. incremental_search f a b step = Some (roots, td) \<and>
          length td = incremental_passes a b step \<and>
          roots = concat (map (\<lambda>j. pass_roots f step (a + real j * step))
                           [0..<incremental_passes a b step]) \<and>
          (f (a + real k * step) = Raises \<or> f (a + real k * step + step) = Raises \<longrightarrow>
             td ! k = failed_row (1 + int k) (a + real k * step) \<and>
             pass_roots f step (a + real k * step) = []) \<and>
          (\<forall>v w. f (a + real k * step) = Returns v \<and> f (a + real k * step + step) = Returns w \<and>
             (isnan v \<or> isinf v \<or> isnan w \<or> isinf w) \<longrightarrow>
             td ! k = incremental_row (1 + int k) (a + real k * step) v None
                        ''Function is undefined or infinite at this point'' \<and>
             pass_roots f step (a + real k * step) = [])))"
proof (intro conjI impI)
  assume "f x = Raises \<or> f (x + step) = Raises"
  then show "incremental_step f step x iteration (roots0, td0) =
        (roots0, td0 @ [failed_row iteration x])"
    by (rule incremental_step_raises)
next
  assume "f x = Returns fx \<and> f (x + step) = Returns fy \<and>
        (isnan fx \<or> isinf fx \<or> isnan fy \<or> isinf fy)"
  then show "incremental_step f step x iteration (roots0, td0) =
        (roots0, td0 @ [incremental_row iteration x fx None
                          ''Function is undefined or infinite at this point''])"
    by (auto intro: incremental_step_undefined)
next
  assume a: "0 < step \<and> k < incremental_passes a b step"
  define td where "td = map (\<lambda>j. pass_row f step (a + real j * step) (1 + int j))
               [0..<incremental_passes a b step]"
  have k: "td ! k = pass_row f step (a + real k * step) (1 + int k)"
    using a by (simp add: td_def)
  have len: "length td = incremental_passes a b step"
    by (simp add: td_def)
  from a have step: "0 < step" by simp
  show "\<exists>roots td. incremental_search f a b step = Some (roots, td) \<and>
          length td = incremental_passes a b step \<and>
          roots = concat (map (\<lambda>j. pass_roots f step (a + real j * step))
                           [0..<incremental_passes a b step]) \<and>
          (f (a + real k * step) = Raises \<or> f (a + real k * step + step) = Raises \<longrightarrow>
             td ! k = failed_row (1 + int k) (a + real k * step) \<and>
             pass_roots f step (a + real k * step) = []) \<and>
          (\<forall>v w. f (a + real k * step) = Returns v \<and> f (a + real k * step + step) = Returns w \<and>
             (isnan v \<or> isinf v \<or> isnan w \<or> isinf w) \<longrightarrow>
             td ! k = incremental_row (1 + int k) (a + real k * step) v None
                        ''Function is undefined or infinite at this point'' \<and>
             pass_roots f step (a + real k * step) = [])"
    using incremental_search_result [OF step, of f a b] len
    by (fold td_def) (auto simp: k pass_raises dest: pass_undefined)
qed

theorem incremental_search_tolerates_failures_witness:
  "incremental_step recip 1 (- 1) 1 ([], []) = ([], [failed_row 1 (- 1)])
   \<and> (\<exists>roots td. incremental_search recip (- 1) 1 1 = Some (roots, td) \<and> length td = 3 \<and>
        td ! 1 = failed_row 2 0)"
proof -
  have k: "1 < incremental_passes (- 1) 1 1"
    by (simp add: incremental_example_passes)
  have r: "recip (- 1 + 1) = Raises" "recip (- 1 + real 1 * 1) = Raises"
    by (simp_all add: recip_def)
  show ?thesis
    using incremental_search_tolerates_failures
            [of recip "- 1" 1 1 "[]" "[]" "Fin 0" "Fin 0" 1 "- 1" 1] k r
    by (auto simp: incremental_example_passes)
qed

text \<open>
  C7, as amended. When iteration \<open>k\<close> of \<open>newton_raphson\<close> finds \<open>|f'(x)| < 1e-10\<close>, the
  run ends there without a root and without raising, and the row of that iteration is
  appended with \<^verbatim>\<open>None\<close> in its \<^verbatim>\<open>ea\<close> column. When iteration \<open>k\<close> of
  \<open>secant_method\<close> finds \<open>|f(x\<^sub>i) - f(x\<^sub>i\<^sub>-\<^sub>1)| < 1e-10\<close>, the run ends there without a root
  and without raising, and returns the rows of the earlier iterations only: the secant
  method appends no row and no remark for the singular iteration.
\<close>

theorem singularity_ends_run:
  "(int k < max_iter \<and> (\<forall>j<k. \<not> newton_stall f df x0 j \<and> \<not> newton_ea f df x0 j < tol) \<and>
    newton_stall f df x0 k \<longrightarrow>
      newton_raphson f df x0 tol max_iter num_guesses =
        Inr ([], map (newton_rec f df x0) [0..<k] @ [newton_stall_rec f df x0 k]) \<and>
      map_of (newton_stall_rec f df x0 k) ''ea'' = Some NoneC)
   \<and> (int k < max_iter \<and> (\<forall>j<k. \<not> secant_flat g y0 y1 j \<and> \<not> secant_accept g y0 y1 tol j) \<and>
    secant_flat g y0 y1 k \<longrightarrow>
      secant_method g y0 y1 tol max_iter = Inr ([], map (secant_rec g y0 y1) [0..<k]))"
proof (intro conjI impI)
  assume a: "int k < max_iter \<and>
    (\<forall>j<k. \<not> newton_stall f df x0 j \<and> \<not> newton_ea f df x0 j < tol) \<and> newton_stall f df x0 k"
  then have lt: "int k < max_iter"
    and pre: "\<forall>j<k. \<not> newton_stall f df x0 j \<and> \<not> newton_ea f df x0 j < tol"
    and st: "newton_stall f df x0 k"
    by simp_all
  show "newton_raphson f df x0 tol max_iter num_guesses =
        Inr ([], map (newton_rec f df x0) [0..<k] @ [newton_stall_rec f df x0 k])"
    using st by (simp add: newton_raphson_def newton_run_at [OF lt pre])
  show "map_of (newton_stall_rec f df x0 k) ''ea'' = Some NoneC"
    by (rule newton_stall_rec_ea)
next
  assume a: "int k < max_iter \<and>
    (\<forall>j<k. \<not> secant_flat g y0 y1 j \<and> \<not> secant_accept g y0 y1 tol j) \<and> secant_flat g y0 y1 k"
  then have lt: "int k < max_iter"
    and pre: "\<forall>j<k. \<not> secant_flat g y0 y1 j \<and> \<not> secant_accept g y0 y1 tol j"
    and st: "secant_flat g y0 y1 k"
    by simp_all
  show "secant_method g y0 y1 tol max_iter = Inr ([], map (secant_rec g y0 y1) [0..<k])"
    using st by (simp add: secant_method_def secant_run_at [OF lt pre] del: secant_x.simps(3))
qed

theorem singularity_ends_run_witness:
  "newton_raphson quad (\<lambda>x. 2 * x) 0 (1 / 1000) 100 5 =
     Inr ([], [newton_stall_rec quad (\<lambda>x. 2 * x) 0 0])
   \<and> map_of (newton_stall_rec quad (\<lambda>x. 2 * x) 0 0) ''ea'' = Some NoneC
   \<and> secant_method flat_one 0 1 (1 / 1000) 100 = Inr ([], [])"
proof -
  have n: "newton_stall quad (\<lambda>x. 2 * x) 0 0"
    by (simp add: newton_stall_def)
  have s: "secant_flat flat_one 0 1 0"
    by (simp add: secant_flat_def flat_one_def)
  show ?thesis
    using singularity_ends_run [of 0 100 quad "\<lambda>x. 2 * x" 0 "1 / 1000" 5 flat_one 0 1] n s
    by simp
qed

text \<open>
  The claim as stated fails for the secant method: on a constant objective the first
  iteration finds a flat slope, and the table that is returned is empty.
\<close>

theorem secant_singularity_unrecorded:
  "secant_flat flat_one 0 1 0 \<and> secant_method flat_one 0 1 (1 / 1000) 100 = Inr ([], [])"
proof -
  have fl: "secant_flat flat_one 0 1 0"
    by (simp add: secant_flat_def flat_one_def)
  have "secant_loop flat_one (1 / 1000) 100 0 0 1 [] [] = Inr ([], [])"
    using secant_run_at [of 0 100 flat_one 0 1 "1 / 1000"] fl by simp
  with fl show ?thesis
    by (simp add: secant_method_def)
qed

text \<open>
  C8. For a bracket with \<open>f(a) * f(b) < 0\<close>, \<open>bisection_method\<close> either raises on a
  midpoint of exactly 0 (the division of the relative error) or returns at most
  \<open>max_iter\<close> rows and at most one root. A root that is returned is the (rounded) midpoint
  of the last iteration recorded, and that midpoint passed the relative-error test with a
  previous iteration to compare with, or the test \<open>|f(c)| < 1e-10\<close>.
\<close>

theorem bisection_bounds:
  assumes "f a * f b < 0"
  shows "(\<exists>k. 0 < k \<and> int k < max_iter \<and> bisection_mid f a b k = 0 \<and>
            bisection_method f a b tol max_iter = Inl ZeroDivisionError) \<or>
         (\<exists>roots td. bisection_method f a b tol max_iter = Inr (roots, td) \<and>
            length td \<le> nat max_iter \<and> length roots \<le> 1 \<and>
            (roots \<noteq> [] \<longrightarrow>
               (\<exists>k. length td = Suc k \<and> roots = [py_round 7 (bisection_mid f a b k)] \<and>
                    ((bisection_ea f a b k < tol \<and> 0 < k) \<or>
                     \<bar>f (bisection_mid f a b k)\<bar> < 1 / 10 ^ 10))))"
proof -
  have m: "bisection_method f a b tol max_iter = bisection_loop f tol max_iter a b 1 None [] []"
    using assms by (simp add: bisection_method_def)
  from bisection_run_cases [of max_iter f a b tol]
  consider
    (raise) k where "int k < max_iter" "bisection_raises f a b k"
      "bisection_loop f tol max_iter a b 1 None [] [] = Inl ZeroDivisionError"
  | (accept) k where "int k < max_iter"
      "bisection_converged f a b tol k \<or> bisection_hit f a b k"
      "bisection_loop f tol max_iter a b 1 None [] [] =
         Inr ([py_round 7 (bisection_mid f a b k)], map (bisection_rec f a b) [0..<Suc k])"
  | (exhausted) "bisection_loop f tol max_iter a b 1 None [] [] =
         Inr ([], map (bisection_rec f a b) [0..<nat max_iter])"
    by blast
  then show ?thesis
  proof cases
    case raise
    then show ?thesis
      unfolding m bisection_raises_def by blast
  next
    case accept
    have "Suc k \<le> nat max_iter" using accept(1) by simp
    with accept(2,3) show ?thesis
      unfolding m bisection_converged_def bisection_hit_def
      by (intro disjI2) (simp del: upt_Suc)
  next
    case exhausted
    then show ?thesis unfolding m by simp
  qed
qed

theorem bisection_bounds_witness:
  "\<exists>roots td. bisection_method line 0 4 50 50 = Inr (roots, td) \<and>
     length td \<le> nat 50 \<and> length roots \<le> 1 \<and> roots \<noteq> []"
proof -
  have "line 0 * line 4 < 0"
    by (simp add: line_def)
  from bisection_bounds [of line 0 4 50 50, OF this] show ?thesis
    by (auto simp: bisection_example_run)
qed

text \<open>
  C9. In every method a root comes with the row of the iteration whose test let it in.
  Bisection, Newton-Raphson and secant return no root, or one root together with the row of
  its iteration as the last row, and in that iteration the method's convergence test
  passed; when an iteration ran, rows are returned whether or not a root was found. Every
  root of regula falsi is shown in column \<^verbatim>\<open>c\<close> of a row whose residual is below
  \<open>tol\<close>. The graphical method returns one root for each sign-change index, and the row of
  that index is in the table. Incremental search returns at most as many roots as rows
  whose remark reports a root.
\<close>

theorem roots_have_rows:
  "(bisection_method f a b tol max_iter = Inr (roots, td) \<longrightarrow>
      (\<not> 0 < f a * f b \<and> 0 < max_iter \<longrightarrow> td \<noteq> []) \<and>
      (roots = [] \<or>
       (\<exists>k. roots = [py_round 7 (bisection_mid f a b k)] \<and> length td = Suc k \<and>
            td ! k = bisection_rec f a b k \<and>
            (bisection_converged f a b tol k \<or> bisection_hit f a b k))))
   \<and> (\<exists>roots td. newton_raphson f df x0 tol max_iter num_guesses = Inr (roots, td) \<and>
        (0 < max_iter \<longrightarrow> td \<noteq> []) \<and>
        (roots = [] \<or>
         (\<exists>k. roots = [py_round 6 (newton_x f df x0 (Suc k))] \<and> length td = Suc k \<and>
              td ! k = newton_rec f df x0 k \<and> \<not> newton_stall f df x0 k \<and>
              newton_ea f df x0 k < tol)))
   \<and> (\<exists>roots td. secant_method f x0 x1 tol max_iter = Inr (roots, td) \<and>
        (0 < max_iter \<and> \<not> secant_flat f x0 x1 0 \<longrightarrow> td \<noteq> []) \<and>
        (roots = [] \<or>
         (\<exists>k. roots = [py_round 6 (secant_x f x0 x1 (Suc (Suc k)))] \<and> length td = Suc k \<and>
              td ! k = secant_rec f x0 x1 k \<and> secant_accept f x0 x1 tol k)))
   \<and> (regula_falsi f a b tol max_iter num_intervals = Inr (roots, td) \<longrightarrow>
        rf_recorded tol roots td)
   \<and> (0 < step \<longrightarrow>
        (\<exists>roots td is_periodic period.
           graphical_method f x_min x_max step = Inr (roots, td, is_periodic, period) \<and>
           length roots = length (crossings f (np_arange x_min (x_max + step / 2) step)) \<and>
           list_all (\<lambda>i. i < length td \<and>
                td ! i = sample_row (np_arange x_min (x_max + step / 2) step ! i)
                           (f (np_arange x_min (x_max + step / 2) step ! i)))
             (crossings f (np_arange x_min (x_max + step / 2) step))))
   \<and> (incremental_search g a b step = Some (roots, td) \<longrightarrow> length roots \<le> root_remarks td)"
  using bisection_result [of f a b tol max_iter roots td]
    newton_result [of f df x0 tol max_iter num_guesses]
    secant_result [of f x0 x1 tol max_iter]
    regula_falsi_recorded [of f a b tol max_iter num_intervals roots td]
    graphical_rows [of step f x_min x_max]
    incremental_search_remarks [of g a b step roots td]
  by (intro conjI impI) blast+

theorem roots_have_rows_witness:
  "(\<exists>k. [1] = [py_round 7 (bisection_mid line 0 4 k)] \<and>
        length (map (bisection_rec line 0 4) [0..<2]) = Suc k \<and>
        map (bisection_rec line 0 4) [0..<2] ! k = bisection_rec line 0 4 k \<and>
        (bisection_converged line 0 4 50 k \<or> bisection_hit line 0 4 k))
   \<and> rf_recorded (1 / 10 ^ 6) [1] [rf_rec line 0 4 0]"
  using roots_have_rows [of line 0 4 50 50 "[1]" "map (bisection_rec line 0 4) [0..<2]"
      "\<lambda>x. 2 * x" 1 5 5 1 1 0 1 recip]
    roots_have_rows [of line 0 4 "1 / 10 ^ 6" 100 "[1]" "[rf_rec line 0 4 0]"
      "\<lambda>x. 2 * x" 1 5 5 1 1 0 1 recip]
    bisection_example_run regula_falsi_example
  by simp

text \<open>
  C10. The result of \<open>newton_raphson\<close> does not depend on \<open>num_guesses\<close>: any two values of
  the parameter give the same roots and the same rows.
\<close>

theorem newton_raphson_ignores_num_guesses:
  "newton_raphson f df x0 tol max_iter n1 = newton_raphson f df x0 tol max_iter n2"
  by (simp add: newton_raphson_def)

end
